theory Spec2Isabelle
  imports Complex_Main "HOL-Library.Word"
begin

unbundle bit_operations_syntax

section \<open>Data model of the freezer controller\<close>

text \<open>
  The firmware is one translation unit, \<^verbatim>\<open>src/code/src/main.cpp\<close>. Temperatures are C
  \<^verbatim>\<open>float\<close>/\<^verbatim>\<open>double\<close> values in the source; they are only ever compared and averaged, and
  are modelled as \<^typ>\<open>real\<close>. The 16-bit configuration fields and the 32-bit millisecond
  timestamps are machine words, so that the unsigned wrap-around of \<^verbatim>\<open>millis()\<close>
  differences is the one of the code. A reading that is not a number, which in C compares
  false with everything, has no counterpart among the reals.
\<close>

type_synonym u8 = "8 word"
type_synonym u16 = "16 word"
type_synonym u32 = "32 word"

record freezer_config =
  magic_bytes :: string
  target_temperature :: real
  target_temperature_hysteresis_time :: "16 word"
  compressor_dead_time :: "16 word"
  compressor_max_run_time :: "16 word"
  compressor_max_temp :: real
  freezer_startup_delay :: "16 word"

datatype freezer_status =
  off | cooling | reached_target | dead_time | compressor_max_runtime
  | startup_delay | overheat

record freezer_state =
  current_ntc1_temperature :: real
  current_ntc2_temperature :: real
  target_compressor_state :: bool
  actual_compressor_state :: bool
  status :: freezer_status

record freezer_state_data_point =
  start_magic_bytes :: string
  ms_since_startup :: u32
  config :: freezer_config
  state :: freezer_state
  crc_dp :: u8

text \<open>The default member initialisers of \<^verbatim>\<open>struct freezer_config\<close> and
  \<^verbatim>\<open>struct freezer_state\<close>.\<close>

definition default_config :: freezer_config where
  "default_config =
     \<lparr> magic_bytes = ''F002'', target_temperature = - 18,
       target_temperature_hysteresis_time = 60, compressor_dead_time = 5,
       compressor_max_run_time = 300, compressor_max_temp = 45,
       freezer_startup_delay = 2 \<rparr>"

definition default_state :: freezer_state where
  "default_state =
     \<lparr> current_ntc1_temperature = 0, current_ntc2_temperature = 0,
       target_compressor_state = False, actual_compressor_state = False,
       status = off \<rparr>"

section \<open>Checksum\<close>

text \<open>
  \<^verbatim>\<open>calculate_crc8(data, len)\<close>. The inner \<^verbatim>\<open>for\<close> loop over \<^verbatim>\<open>j\<close> performs eight
  shift steps on the 8-bit register; the outer loop first folds the next byte into the
  register. The length is a \<^verbatim>\<open>uint8_t\<close>; the model reads the first \<open>len\<close> bytes of the
  span and (unlike C, where it is undefined) stops at the end of a shorter list.
\<close>

definition crc8_shift :: "u8 \<Rightarrow> u8" where
  "crc8_shift c = (if c AND 0x80 \<noteq> 0 then push_bit 1 c XOR 0x07 else push_bit 1 c)"

fun crc8_bits :: "nat \<Rightarrow> u8 \<Rightarrow> u8" where
  "crc8_bits 0 c = c"
| "crc8_bits (Suc j) c = crc8_bits j (crc8_shift c)"

fun crc8_bytes :: "u8 \<Rightarrow> u8 list \<Rightarrow> u8" where
  "crc8_bytes c [] = c"
| "crc8_bytes c (b # bs) = crc8_bytes (crc8_bits 8 (c XOR b)) bs"

definition calculate_crc8 :: "u8 list \<Rightarrow> u8 \<Rightarrow> u8" where
  "calculate_crc8 data len = crc8_bytes 0 (take (unat len) data)"

text \<open>
  The standard the checksum is compared with: the parametrised CRC model with width 8,
  polynomial \<open>0x07\<close>, initial value 0, no reflection and no final XOR. The message is
  fed bit by bit, each byte from its most significant bit; a step shifts the register left
  and subtracts the polynomial when the bit shifted out differs from the message bit.
\<close>

definition message_bits :: "u8 list \<Rightarrow> bool list" where
  "message_bits data = concat (map (\<lambda>b. map (bit b) (rev [0..<8])) data)"

definition crc8_feed :: "u8 \<Rightarrow> bool \<Rightarrow> u8" where
  "crc8_feed reg m = (if bit reg 7 \<noteq> m then push_bit 1 reg XOR 0x07 else push_bit 1 reg)"

definition crc8_standard :: "u8 list \<Rightarrow> u8" where
  "crc8_standard data = foldl crc8_feed 0 (message_bits data)"

text \<open>The inverse of one shift step of \<^verbatim>\<open>calculate_crc8\<close>.\<close>

definition crc8_unshift :: "u8 \<Rightarrow> u8" where
  "crc8_unshift r = (if bit r 0 then drop_bit 1 (r XOR 0x07) OR 0x80 else drop_bit 1 r)"

section \<open>Block storage as seen by the record log\<close>

text \<open>
  The record log calls \<^verbatim>\<open>read_card_block\<close> and \<^verbatim>\<open>write_card_block\<close>; each call is one
  transaction that either transfers one 512-byte block or returns \<^verbatim>\<open>false\<close>. The card is
  the environment: its contents are a byte per block address and offset, and
  \<open>outcomes\<close> lists whether each of the coming transactions is accepted (an exhausted
  list accepts). A read copies the first \<open>buffer_size\<close> bytes of the block; a write
  stores the first \<open>buffer_size\<close> bytes of the buffer and pads the block with zeros.
  The byte-level driver underneath is modelled in its own section further down.
\<close>

definition SD_BLOCK_SIZE :: nat where
  "SD_BLOCK_SIZE = 512"

record card =
  blocks :: "u32 \<Rightarrow> nat \<Rightarrow> u8"
  outcomes :: "bool list"

definition next_outcome :: "card \<Rightarrow> bool \<times> card" where
  "next_outcome c =
     (case outcomes c of [] \<Rightarrow> (True, c) | ok # rest \<Rightarrow> (ok, c\<lparr>outcomes := rest\<rparr>))"

definition card_read :: "u32 \<Rightarrow> nat \<Rightarrow> card \<Rightarrow> bool \<times> u8 list \<times> card" where
  "card_read block_addr buffer_size c =
     (let (ok, c') = next_outcome c in
      if ok then (True, map (blocks c block_addr) [0..<min buffer_size SD_BLOCK_SIZE], c')
      else (False, [], c'))"

definition block_image :: "u8 list \<Rightarrow> nat \<Rightarrow> nat \<Rightarrow> u8" where
  "block_image buffer buffer_size i =
     (if i < buffer_size \<and> i < length buffer then buffer ! i else 0)"

definition card_write :: "u32 \<Rightarrow> u8 list \<Rightarrow> nat \<Rightarrow> card \<Rightarrow> bool \<times> card" where
  "card_write block_addr buffer buffer_size c =
     (let (ok, c') = next_outcome c in
      if ok then (True, c'\<lparr>blocks := (blocks c')(block_addr := block_image buffer buffer_size)\<rparr>)
      else (False, c'))"

section \<open>Record log\<close>

text \<open>
  \<^verbatim>\<open>struct sd_count_sector\<close> is five bytes on the 8-bit target: the count, least
  significant byte first, then its checksum.
\<close>

record sd_count_sector =
  count :: u32
  crc :: u8

definition sizeof_sd_count_sector :: nat where
  "sizeof_sd_count_sector = 5"

definition le_bytes :: "u32 \<Rightarrow> u8 list" where
  "le_bytes n = [ucast n, ucast (drop_bit 8 n), ucast (drop_bit 16 n), ucast (drop_bit 24 n)]"

definition sector_bytes :: "sd_count_sector \<Rightarrow> u8 list" where
  "sector_bytes s = le_bytes (count s) @ [crc s]"

fun sector_of_bytes :: "u8 list \<Rightarrow> sd_count_sector" where
  "sector_of_bytes (b0 # b1 # b2 # b3 # c # rest) =
     \<lparr> count = ucast b0 OR push_bit 8 (ucast b1) OR push_bit 16 (ucast b2)
                OR push_bit 24 (ucast b3),
       crc = c \<rparr>"
| "sector_of_bytes bs = \<lparr> count = 0, crc = 0 \<rparr>"

definition count_crc :: "u32 \<Rightarrow> u8" where
  "count_crc n = calculate_crc8 (le_bytes n) 4"

text \<open>\<^verbatim>\<open>save_data_point\<close>: every early \<^verbatim>\<open>return false\<close> of the source is a branch.\<close>

definition save_data_point :: "u8 list \<Rightarrow> card \<Rightarrow> bool \<times> card" where
  "save_data_point data c =
     (let (ok, buf0, c) = card_read 0 sizeof_sd_count_sector c in
      if \<not> ok then (False, c) else
      let (ok, buf1, c) = card_read 1 sizeof_sd_count_sector c in
      if \<not> ok then (False, c) else
      let count_sector_0 = sector_of_bytes buf0;
          count_sector_1 = sector_of_bytes buf1;
          differ = (count count_sector_0 \<noteq> count count_sector_1);
          (count_sector_0, count_sector_1) =
            (if differ then
               (if crc count_sector_0 = count_crc (count count_sector_0)
                then (count_sector_0, count_sector_0)
                else if crc count_sector_1 = count_crc (count count_sector_1)
                then (count_sector_1, count_sector_1)
                else (count_sector_0, count_sector_0))
             else (count_sector_0, count_sector_1));
          (ok, c) =
            (if differ
             then card_write 1 (sector_bytes count_sector_1) sizeof_sd_count_sector c
             else (True, c))
      in
      if \<not> ok then (False, c) else
      let count_sector_0 = count_sector_0\<lparr>count := count count_sector_0 + 1\<rparr>;
          count_sector_0 = count_sector_0\<lparr>crc := count_crc (count count_sector_0)\<rparr>;
          (ok, c) = card_write 0 (sector_bytes count_sector_0) sizeof_sd_count_sector c
      in
      if \<not> ok then (False, c) else
      let (ok, c) = card_write 1 (sector_bytes count_sector_0) sizeof_sd_count_sector c in
      if \<not> ok then (False, c) else
      let (ok, c) = card_write (count count_sector_0 + 2) data (length data) c in
      if \<not> ok then (False, c) else (True, c))"

section \<open>Firmware state\<close>

text \<open>
  The global variables of the firmware that the control loop reads or writes, the three
  output pins it drives, and the card. Globals without an initialiser are zero at boot.
  The display, the rotary encoder and the EEPROM are not part of the model; a committed
  configuration edit arrives as an input of a loop pass.
\<close>

record firmware =
  logging_enabled :: bool
  config_is_dirty :: bool
  active_config :: freezer_config
  dirty_config :: freezer_config
  current_state :: freezer_state
  compressor_turned_on_at :: u32
  compressor_turned_off_at :: u32
  reached_target_temperature_at :: u32
  state_updated_at :: u32
  exceeded_max_runtime_at :: u32
  startup_delay_over :: bool
  COMPRESSOR_RELAY :: bool
  BLUE_LED_PIN :: bool
  RED_LED_PIN :: bool
  sd_card :: card

text \<open>
  What one pass of \<^verbatim>\<open>loop()\<close> takes from its environment: the reading of \<^verbatim>\<open>millis()\<close>
  (one value for all the reads of a pass, which are a few instructions apart; the tick
  with a reading of its own for each read follows \<open>run\<close> below), the samples
  \<^verbatim>\<open>readCelsius()\<close> returns on each channel, and the configuration the user committed
  during the pass, if any.
\<close>

record pass_input =
  millis :: u32
  ntc_1_samples :: "real list"
  ntc_2_samples :: "real list"
  committed_config :: "freezer_config option"

text \<open>
  \<^verbatim>\<open>halt()\<close> ends in \<^verbatim>\<open>for(;;);\<close>, a loop with an empty body: the firmware state it
  is entered with never changes again. A system is either running or halted with the
  error text shown and that final state. The watchdog that ends this loop by resetting
  the controller starts a new run from power-on and is outside the model.
\<close>

datatype system = Running firmware | Halted string firmware

definition boot :: "freezer_config \<Rightarrow> bool \<Rightarrow> card \<Rightarrow> firmware" where
  "boot cfg logging c =
     \<lparr> logging_enabled = logging, config_is_dirty = False,
       active_config = cfg, dirty_config = cfg, current_state = default_state,
       compressor_turned_on_at = 0, compressor_turned_off_at = 0,
       reached_target_temperature_at = 0, state_updated_at = 0,
       exceeded_max_runtime_at = 0, startup_delay_over = False,
       COMPRESSOR_RELAY = False, BLUE_LED_PIN = False, RED_LED_PIN = False,
       sd_card = c \<rparr>"

section \<open>Compressor control\<close>

text \<open>
  \<^verbatim>\<open>(uint32_t)x\<close> of an \<^verbatim>\<open>int16_t\<close> sign-extends; the products are taken in 32 bits.
\<close>

definition is_compressor_overheating :: "firmware \<Rightarrow> bool" where
  "is_compressor_overheating s \<longleftrightarrow>
     current_ntc2_temperature (current_state s) \<ge> compressor_max_temp (active_config s)"

definition is_startup_delay_over :: "u32 \<Rightarrow> firmware \<Rightarrow> bool" where
  "is_startup_delay_over now s \<longleftrightarrow>
     now \<ge> (scast (freezer_startup_delay (active_config s)) :: u32) * 60 * 1000"

definition is_compressor_on :: "firmware \<Rightarrow> bool" where
  "is_compressor_on s \<longleftrightarrow> actual_compressor_state (current_state s)"

definition is_within_target_temperature :: "firmware \<Rightarrow> bool" where
  "is_within_target_temperature s \<longleftrightarrow>
     current_ntc1_temperature (current_state s) \<le> target_temperature (active_config s)"

definition has_hysteresis_time_elapsed :: "u32 \<Rightarrow> firmware \<Rightarrow> bool" where
  "has_hysteresis_time_elapsed now s \<longleftrightarrow>
     now - reached_target_temperature_at s
       \<ge> (scast (target_temperature_hysteresis_time (active_config s)) :: u32) * 1000"

definition has_dead_time_elapsed :: "u32 \<Rightarrow> firmware \<Rightarrow> bool" where
  "has_dead_time_elapsed now s \<longleftrightarrow>
     (if compressor_turned_off_at s = 0 then True
      else now - compressor_turned_off_at s
             \<ge> (scast (compressor_dead_time (active_config s)) :: u32) * 1000 * 60)"

text \<open>\<^verbatim>\<open>has_compressor_exceeded_max_runtime\<close> writes \<^verbatim>\<open>exceeded_max_runtime_at\<close>, so the
  model returns the answer and the new state.\<close>

definition has_compressor_exceeded_max_runtime :: "u32 \<Rightarrow> firmware \<Rightarrow> bool \<times> firmware" where
  "has_compressor_exceeded_max_runtime now s =
     (if exceeded_max_runtime_at s > 0 then
        (if has_dead_time_elapsed now s
         then (False, s\<lparr>exceeded_max_runtime_at := 0\<rparr>)
         else (True, s))
      else if is_compressor_on s \<and>
              now - compressor_turned_on_at s
                \<ge> (scast (compressor_max_run_time (active_config s)) :: u32) * 1000 * 60
      then (True, s\<lparr>exceeded_max_runtime_at := now\<rparr>)
      else (False, s\<lparr>exceeded_max_runtime_at := 0\<rparr>))"

definition set_compressor :: "u32 \<Rightarrow> bool \<Rightarrow> firmware \<Rightarrow> firmware" where
  "set_compressor now st s =
     (if st \<noteq> actual_compressor_state (current_state s) then
        (let s = (if st
                  then s\<lparr>compressor_turned_on_at := now, compressor_turned_off_at := 0\<rparr>
                  else s\<lparr>compressor_turned_off_at := now, compressor_turned_on_at := 0\<rparr>)
         in s\<lparr>COMPRESSOR_RELAY := st, BLUE_LED_PIN := st,
               current_state := (current_state s)\<lparr>actual_compressor_state := st\<rparr>\<rparr>)
      else s)"

text \<open>
  \<^verbatim>\<open>read_sensors\<close> averages ten samples per channel.
\<close>

definition average_of_ten :: "real list \<Rightarrow> real" where
  "average_of_ten samples = foldl (+) 0 (take 10 samples) / 10"

definition read_sensors :: "pass_input \<Rightarrow> firmware \<Rightarrow> firmware" where
  "read_sensors inp s =
     s\<lparr>current_state := (current_state s)
          \<lparr>current_ntc1_temperature := average_of_ten (ntc_1_samples inp),
           current_ntc2_temperature := average_of_ten (ntc_2_samples inp)\<rparr>\<rparr>"

definition halt :: "u32 \<Rightarrow> string \<Rightarrow> firmware \<Rightarrow> system" where
  "halt now error s = Halted error ((set_compressor now False s)\<lparr>RED_LED_PIN := True\<rparr>)"

definition validate_temperatures :: "u32 \<Rightarrow> firmware \<Rightarrow> system" where
  "validate_temperatures now s =
     (if current_ntc1_temperature (current_state s) < - 100
         \<or> current_ntc1_temperature (current_state s) > 100
      then halt now ''N1'' s
      else if current_ntc2_temperature (current_state s) > 100
      then halt now ''N2'' s
      else Running s)"

text \<open>
  \<^verbatim>\<open>log_state\<close>. The bytes of the record in memory depend on the compiler's layout and
  float format; \<open>layout\<close> stands for that byte image and is a parameter. The checksum is
  taken over the image while the checksum field is still zero, with the size cut to a
  \<^verbatim>\<open>uint8_t\<close> as in the call.
\<close>

definition log_state :: "(freezer_state_data_point \<Rightarrow> u8 list) \<Rightarrow> u32 \<Rightarrow> firmware \<Rightarrow> firmware" where
  "log_state layout now s =
     (if \<not> logging_enabled s then s
      else
        let data_point = \<lparr> start_magic_bytes = ''FZZX'', ms_since_startup = now,
                            config = active_config s, state = current_state s,
                            crc_dp = 0 \<rparr>;
            data_point = data_point
              \<lparr>crc_dp := calculate_crc8 (layout data_point) (of_nat (length (layout data_point)))\<rparr>;
            (ok, c) = save_data_point (layout data_point) (sd_card s)
        in s\<lparr>sd_card := c\<rparr>)"

text \<open>The two halves of the decision in \<^verbatim>\<open>update_state\<close>: the block under
  \<^verbatim>\<open>// base decision-making\<close> and the block under \<^verbatim>\<open>// overrides\<close>, which yields the
  local variable \<^verbatim>\<open>override\<close>.\<close>

definition base_decision :: "u32 \<Rightarrow> firmware \<Rightarrow> firmware" where
  "base_decision now s =
     (if is_within_target_temperature s then
        (let s = (if reached_target_temperature_at s = 0
                  then s\<lparr>reached_target_temperature_at := now\<rparr> else s)
         in if has_hysteresis_time_elapsed now s
            then s\<lparr>current_state := (current_state s)
                     \<lparr>target_compressor_state := False, status := reached_target\<rparr>\<rparr>
            else s\<lparr>current_state := (current_state s)
                     \<lparr>target_compressor_state := True, status := cooling\<rparr>\<rparr>)
      else
        (let s = s\<lparr>reached_target_temperature_at := 0\<rparr>
         in s\<lparr>current_state := (current_state s)
                \<lparr>target_compressor_state := True, status := cooling\<rparr>\<rparr>))"

definition set_status :: "freezer_status \<Rightarrow> firmware \<Rightarrow> firmware" where
  "set_status st s = s\<lparr>current_state := (current_state s)\<lparr>status := st\<rparr>\<rparr>"

definition overrides :: "u32 \<Rightarrow> firmware \<Rightarrow> bool \<times> firmware" where
  "overrides now s =
     (if target_compressor_state (current_state s) then
        (if is_compressor_overheating s then (True, set_status overheat s)
         else
           let (exceeded, s) = has_compressor_exceeded_max_runtime now s in
           if exceeded then (True, set_status compressor_max_runtime s)
           else if \<not> is_compressor_on s \<and> \<not> has_dead_time_elapsed now s
           then (True, set_status dead_time s)
           else (False, s))
      else (False, s))"

definition update_state :: "(freezer_state_data_point \<Rightarrow> u8 list) \<Rightarrow> pass_input \<Rightarrow> firmware \<Rightarrow> system" where
  "update_state layout inp s =
     (case validate_temperatures (millis inp) (read_sensors inp s) of
        Halted error s \<Rightarrow> Halted error s
      | Running s \<Rightarrow>
          if \<not> startup_delay_over s then
            (let s = s\<lparr>startup_delay_over := is_startup_delay_over (millis inp) s\<rparr>;
                 s = set_status startup_delay s
             in Running (log_state layout (millis inp) s))
          else
            (let s = base_decision (millis inp) s;
                 (override, s) = overrides (millis inp) s;
                 s = set_compressor (millis inp)
                       (target_compressor_state (current_state s) \<and> \<not> override) s
             in Running (log_state layout (millis inp) s)))"

text \<open>
  One pass of \<^verbatim>\<open>loop()\<close>: once a second the pending configuration is taken over and
  \<^verbatim>\<open>update_state\<close> runs; then the input handler may leave a new committed
  configuration. A halted system never leaves \<^verbatim>\<open>halt\<close>, so no pass changes it.
\<close>

definition handle_input :: "pass_input \<Rightarrow> firmware \<Rightarrow> firmware" where
  "handle_input inp s =
     (case committed_config inp of
        None \<Rightarrow> s
      | Some cfg \<Rightarrow> s\<lparr>dirty_config := cfg, config_is_dirty := True\<rparr>)"

definition loop :: "(freezer_state_data_point \<Rightarrow> u8 list) \<Rightarrow> pass_input \<Rightarrow> system \<Rightarrow> system" where
  "loop layout inp sys =
     (case sys of
        Halted error s \<Rightarrow> Halted error s
      | Running s \<Rightarrow>
          if millis inp - state_updated_at s \<ge> 1000 then
            (let s = (if config_is_dirty s
                      then s\<lparr>active_config := dirty_config s, config_is_dirty := False\<rparr>
                      else s)
             in case update_state layout inp s of
                  Halted error s \<Rightarrow> Halted error s
                | Running s \<Rightarrow> Running (handle_input inp (s\<lparr>state_updated_at := millis inp\<rparr>)))
          else Running (handle_input inp s))"

fun run :: "(freezer_state_data_point \<Rightarrow> u8 list) \<Rightarrow> pass_input list \<Rightarrow> system \<Rightarrow> system" where
  "run layout [] sys = sys"
| "run layout (inp # inps) sys = run layout inps (loop layout inp sys)"

section \<open>A tick with its clock reads apart\<close>

text \<open>
  \<^verbatim>\<open>update_state\<close> and the functions it calls read \<^verbatim>\<open>millis()\<close> several times in a
  tick, and the counter can advance between two reads. Here is the tick again with a
  reading of its own for each read: the startup-delay test, the start of the
  target-reached timer, the hysteresis test, the dead-time test made while a max-runtime
  mark is set, the run-time test, the max-runtime mark, the dead-time test of the third
  override, the timestamp taken by \<^verbatim>\<open>set_compressor\<close> (called once in a tick, by
  \<^verbatim>\<open>halt\<close> or after the decision), and the clock field of the log record. With one
  reading for all of them this is \<open>update_state\<close>.
\<close>

record clock_reads =
  at_startup_delay :: u32
  at_timer_start :: u32
  at_hysteresis :: u32
  at_pending_dead_time :: u32
  at_run_time :: u32
  at_mark :: u32
  at_dead_time :: u32
  at_set_compressor :: u32
  at_log :: u32

definition one_reading :: "u32 \<Rightarrow> clock_reads" where
  "one_reading now =
     \<lparr> at_startup_delay = now, at_timer_start = now, at_hysteresis = now,
       at_pending_dead_time = now, at_run_time = now, at_mark = now, at_dead_time = now,
       at_set_compressor = now, at_log = now \<rparr>"

definition has_compressor_exceeded_max_runtime_reads :: "clock_reads \<Rightarrow> firmware \<Rightarrow> bool \<times> firmware" where
  "has_compressor_exceeded_max_runtime_reads rd s =
     (if exceeded_max_runtime_at s > 0 then
        (if has_dead_time_elapsed (at_pending_dead_time rd) s
         then (False, s\<lparr>exceeded_max_runtime_at := 0\<rparr>)
         else (True, s))
      else if is_compressor_on s \<and>
              at_run_time rd - compressor_turned_on_at s
                \<ge> (scast (compressor_max_run_time (active_config s)) :: u32) * 1000 * 60
      then (True, s\<lparr>exceeded_max_runtime_at := at_mark rd\<rparr>)
      else (False, s\<lparr>exceeded_max_runtime_at := 0\<rparr>))"

definition base_decision_reads :: "clock_reads \<Rightarrow> firmware \<Rightarrow> firmware" where
  "base_decision_reads rd s =
     (if is_within_target_temperature s then
        (let s = (if reached_target_temperature_at s = 0
                  then s\<lparr>reached_target_temperature_at := at_timer_start rd\<rparr> else s)
         in if has_hysteresis_time_elapsed (at_hysteresis rd) s
            then s\<lparr>current_state := (current_state s)
                     \<lparr>target_compressor_state := False, status := reached_target\<rparr>\<rparr>
            else s\<lparr>current_state := (current_state s)
                     \<lparr>target_compressor_state := True, status := cooling\<rparr>\<rparr>)
      else
        (let s = s\<lparr>reached_target_temperature_at := 0\<rparr>
         in s\<lparr>current_state := (current_state s)
                \<lparr>target_compressor_state := True, status := cooling\<rparr>\<rparr>))"

definition overrides_reads :: "clock_reads \<Rightarrow> firmware \<Rightarrow> bool \<times> firmware" where
  "overrides_reads rd s =
     (if target_compressor_state (current_state s) then
        (if is_compressor_overheating s then (True, set_status overheat s)
         else
           let (exceeded, s) = has_compressor_exceeded_max_runtime_reads rd s in
           if exceeded then (True, set_status compressor_max_runtime s)
           else if \<not> is_compressor_on s \<and> \<not> has_dead_time_elapsed (at_dead_time rd) s
           then (True, set_status dead_time s)
           else (False, s))
      else (False, s))"

definition update_state_reads :: "(freezer_state_data_point \<Rightarrow> u8 list) \<Rightarrow> clock_reads \<Rightarrow> pass_input \<Rightarrow> firmware \<Rightarrow> system" where
  "update_state_reads layout rd inp s =
     (case validate_temperatures (at_set_compressor rd) (read_sensors inp s) of
        Halted error s \<Rightarrow> Halted error s
      | Running s \<Rightarrow>
          if \<not> startup_delay_over s then
            (let s = s\<lparr>startup_delay_over := is_startup_delay_over (at_startup_delay rd) s\<rparr>;
                 s = set_status startup_delay s
             in Running (log_state layout (at_log rd) s))
          else
            (let s = base_decision_reads rd s;
                 (override, s) = overrides_reads rd s;
                 s = set_compressor (at_set_compressor rd)
                       (target_compressor_state (current_state s) \<and> \<not> override) s
             in Running (log_state layout (at_log rd) s)))"

section \<open>Byte-level card driver\<close>

text \<open>
  The driver functions as they are written, over the bus. \<^verbatim>\<open>SPI.transfer\<close> sends one
  byte and returns the byte the device shifts out; the device is any function from the
  bytes sent so far to its reply, and every transfer takes the byte time of the bus (32
  microseconds at the 250 kHz of \<^verbatim>\<open>SPISettings\<close>), which is what makes \<^verbatim>\<open>millis()\<close>
  advance inside the polling loops. The chip-select line is not modelled.

  \<^verbatim>\<open>wait_card_busy\<close>, the wait for the data token in \<^verbatim>\<open>read_card_block\<close> and the wait
  for the end of programming in \<^verbatim>\<open>write_card_block\<close> are loops without a bound on their
  iterations. Each takes fuel, one unit per iteration; the result \<open>None\<close> says that the
  loop has not returned within the fuel, and a call that is \<open>None\<close> for every amount of
  fuel never returns.
\<close>

record spi_bus =
  device :: "u8 list \<Rightarrow> u8"
  byte_time_us :: nat
  sent :: "u8 list"
  elapsed_us :: nat

definition SPI_transfer :: "u8 \<Rightarrow> spi_bus \<Rightarrow> u8 \<times> spi_bus" where
  "SPI_transfer b e =
     (device e (sent e @ [b]),
      e\<lparr>sent := sent e @ [b], elapsed_us := elapsed_us e + byte_time_us e\<rparr>)"

text \<open>\<^verbatim>\<open>millis()\<close> as the driver reads it.\<close>

definition bus_millis :: "spi_bus \<Rightarrow> u32" where
  "bus_millis e = of_nat (elapsed_us e div 1000)"

text \<open>\<^verbatim>\<open>wait_card_busy\<close>: the \<^verbatim>\<open>for(;;)\<close> loop and the function that starts it.\<close>

fun wait_card_busy_loop :: "nat \<Rightarrow> u32 \<Rightarrow> spi_bus \<Rightarrow> (bool \<times> spi_bus) option" where
  "wait_card_busy_loop 0 start_time e = None"
| "wait_card_busy_loop (Suc fuel) start_time e =
     (let (r_byte, e) = SPI_transfer 0xFF e in
      if r_byte = 0xFF then Some (True, e)
      else if bus_millis e - start_time > 300 then Some (False, e)
      else wait_card_busy_loop fuel start_time e)"

definition wait_card_busy :: "nat \<Rightarrow> spi_bus \<Rightarrow> (bool \<times> spi_bus) option" where
  "wait_card_busy fuel e = wait_card_busy_loop fuel (bus_millis e) e"

text \<open>\<^verbatim>\<open>send_card_command\<close> calls \<^verbatim>\<open>wait_card_busy\<close>, drops its result and
  transfers the six bytes of the frame; it returns nothing.\<close>

fun transfer_all :: "u8 list \<Rightarrow> spi_bus \<Rightarrow> spi_bus" where
  "transfer_all [] e = e"
| "transfer_all (b # bs) e = transfer_all bs (snd (SPI_transfer b e))"

definition command_frame :: "u8 \<Rightarrow> u32 \<Rightarrow> u8 \<Rightarrow> u8 list" where
  "command_frame cmd arg crc7 =
     [0x40 OR cmd, ucast (drop_bit 24 arg), ucast (drop_bit 16 arg), ucast (drop_bit 8 arg),
      ucast arg, crc7]"

definition send_card_command :: "nat \<Rightarrow> u8 \<Rightarrow> u32 \<Rightarrow> u8 \<Rightarrow> spi_bus \<Rightarrow> spi_bus option" where
  "send_card_command fuel cmd arg crc7 e =
     (case wait_card_busy fuel e of
        None \<Rightarrow> None
      | Some (not_busy, e) \<Rightarrow> Some (transfer_all (command_frame cmd arg crc7) e))"

text \<open>\<^verbatim>\<open>read_card_response\<close>: up to ten polls for a byte other than \<open>0xFF\<close>.\<close>

fun read_card_response_loop :: "nat \<Rightarrow> spi_bus \<Rightarrow> u8 \<times> spi_bus" where
  "read_card_response_loop 0 e = (0xFF, e)"
| "read_card_response_loop (Suc n) e =
     (let (response, e) = SPI_transfer 0xFF e in
      if response \<noteq> 0xFF then (response, e) else read_card_response_loop n e)"

definition read_card_response :: "spi_bus \<Rightarrow> u8 \<times> spi_bus" where
  "read_card_response e = read_card_response_loop 10 e"

text \<open>\<^verbatim>\<open>read_card_block\<close>; \<open>await_data_token\<close> is its
  \<^verbatim>\<open>while (SPI.transfer(0xFF) != 0xFE);\<close>.\<close>

fun await_data_token :: "nat \<Rightarrow> spi_bus \<Rightarrow> spi_bus option" where
  "await_data_token 0 e = None"
| "await_data_token (Suc fuel) e =
     (let (r_byte, e) = SPI_transfer 0xFF e in
      if r_byte \<noteq> 0xFE then await_data_token fuel e else Some e)"

fun receive_bytes :: "nat \<Rightarrow> spi_bus \<Rightarrow> u8 list \<times> spi_bus" where
  "receive_bytes 0 e = ([], e)"
| "receive_bytes (Suc n) e =
     (let (r_byte, e) = SPI_transfer 0xFF e; (rest, e) = receive_bytes n e in (r_byte # rest, e))"

definition read_card_block :: "nat \<Rightarrow> u32 \<Rightarrow> nat \<Rightarrow> spi_bus \<Rightarrow> (bool \<times> u8 list \<times> spi_bus) option" where
  "read_card_block fuel block_addr buffer_size e =
     (case send_card_command fuel 17 block_addr 0x01 e of
        None \<Rightarrow> None
      | Some e \<Rightarrow>
          let (response, e) = read_card_response e in
          if response \<noteq> 0x00 then Some (False, [], e)
          else
            (case await_data_token fuel e of
               None \<Rightarrow> None
             | Some e \<Rightarrow>
                 let (block, e) = receive_bytes SD_BLOCK_SIZE e;
                     e = transfer_all [0xFF, 0xFF] e;
                     e = transfer_all [0xFF] e
                 in Some (True, take buffer_size block, e)))"

text \<open>\<^verbatim>\<open>write_card_block\<close>; \<open>await_card_ready\<close> is its
  \<^verbatim>\<open>while (SPI.transfer(0xFF) == 0x00);\<close>.\<close>

fun await_card_ready :: "nat \<Rightarrow> spi_bus \<Rightarrow> spi_bus option" where
  "await_card_ready 0 e = None"
| "await_card_ready (Suc fuel) e =
     (let (r_byte, e) = SPI_transfer 0xFF e in
      if r_byte = 0x00 then await_card_ready fuel e else Some e)"

definition write_card_block :: "nat \<Rightarrow> u32 \<Rightarrow> u8 list \<Rightarrow> nat \<Rightarrow> spi_bus \<Rightarrow> (bool \<times> spi_bus) option" where
  "write_card_block fuel block_addr buffer buffer_size e =
     (case send_card_command fuel 24 block_addr 0x01 e of
        None \<Rightarrow> None
      | Some e \<Rightarrow>
          let (response, e) = read_card_response e in
          if response \<noteq> 0x00 then Some (False, e)
          else
            let e = transfer_all [0xFE] e;
                e = transfer_all (map (block_image buffer buffer_size) [0..<SD_BLOCK_SIZE]) e;
                e = transfer_all [0xFF, 0xFF] e;
                (response, e) = SPI_transfer 0xFF e
            in if response AND 0x1F \<noteq> 0x05 then Some (False, e)
               else
                 (case await_card_ready fuel e of
                    None \<Rightarrow> None
                  | Some e \<Rightarrow> Some (True, transfer_all [0xFF] e)))"

section \<open>Notions used in the statements\<close>

definition firmware_of :: "system \<Rightarrow> firmware" where
  "firmware_of sys = (case sys of Running s \<Rightarrow> s | Halted error s \<Rightarrow> s)"

text \<open>The two durations as \<^verbatim>\<open>has_dead_time_elapsed\<close> and
  \<^verbatim>\<open>has_compressor_exceeded_max_runtime\<close> compute them, in milliseconds.\<close>

definition dead_time_ms :: "firmware \<Rightarrow> u32" where
  "dead_time_ms s = (scast (compressor_dead_time (active_config s)) :: u32) * 1000 * 60"

definition max_run_time_ms :: "firmware \<Rightarrow> u32" where
  "max_run_time_ms s = (scast (compressor_max_run_time (active_config s)) :: u32) * 1000 * 60"

text \<open>A tick reaches the decision when the sensors pass validation and the startup gate
  has latched.\<close>

definition decides :: "pass_input \<Rightarrow> firmware \<Rightarrow> bool" where
  "decides inp s \<longleftrightarrow>
     validate_temperatures (millis inp) (read_sensors inp s) = Running (read_sensors inp s)
     \<and> startup_delay_over s"

text \<open>What the base decision of a tick commands, and whether the tick sees the compressor
  body too hot.\<close>

definition commanded_on :: "pass_input \<Rightarrow> firmware \<Rightarrow> bool" where
  "commanded_on inp s \<longleftrightarrow>
     target_compressor_state (current_state (base_decision (millis inp) (read_sensors inp s)))"

definition sees_overheat :: "pass_input \<Rightarrow> firmware \<Rightarrow> bool" where
  "sees_overheat inp s \<longleftrightarrow> is_compressor_overheating (read_sensors inp s)"

definition commanded_on_reads :: "clock_reads \<Rightarrow> pass_input \<Rightarrow> firmware \<Rightarrow> bool" where
  "commanded_on_reads rd inp s \<longleftrightarrow>
     target_compressor_state (current_state (base_decision_reads rd (read_sensors inp s)))"

text \<open>The state of a pending max-runtime override: the compressor is off since \<open>t0\<close>,
  and both \<^verbatim>\<open>compressor_turned_off_at\<close> and \<^verbatim>\<open>exceeded_max_runtime_at\<close> are set.\<close>

definition cooling_down :: "u32 \<Rightarrow> firmware \<Rightarrow> bool" where
  "cooling_down t0 s \<longleftrightarrow>
     startup_delay_over s \<and> \<not> is_compressor_on s \<and> compressor_turned_off_at s = t0
     \<and> t0 \<noteq> 0 \<and> exceeded_max_runtime_at s \<noteq> 0"

text \<open>
  What the append finds on the card and what it leaves there: the count sector stored in a
  metadata block, the sector the append settles on when it has read both (block 1's when
  the counts differ and only block 1's checksum matches, block 0's otherwise), that
  sector advanced by one, and a block holding a count sector.
\<close>

definition stored_sector :: "card \<Rightarrow> u32 \<Rightarrow> sd_count_sector" where
  "stored_sector c block_addr =
     sector_of_bytes (map (blocks c block_addr) [0..<sizeof_sd_count_sector])"

definition counts_differ :: "card \<Rightarrow> bool" where
  "counts_differ c \<longleftrightarrow> count (stored_sector c 0) \<noteq> count (stored_sector c 1)"

definition agreed_sector :: "card \<Rightarrow> sd_count_sector" where
  "agreed_sector c =
     (if counts_differ c
         \<and> crc (stored_sector c 0) \<noteq> count_crc (count (stored_sector c 0))
         \<and> crc (stored_sector c 1) = count_crc (count (stored_sector c 1))
      then stored_sector c 1 else stored_sector c 0)"

definition advanced_sector :: "card \<Rightarrow> sd_count_sector" where
  "advanced_sector c =
     (agreed_sector c)
       \<lparr> count := count (agreed_sector c) + 1, crc := count_crc (count (agreed_sector c) + 1) \<rparr>"

definition sector_image :: "sd_count_sector \<Rightarrow> nat \<Rightarrow> u8" where
  "sector_image s = block_image (sector_bytes s) sizeof_sd_count_sector"

text \<open>The relay pin agrees with the recorded compressor state.\<close>

definition relay_follows_state :: "firmware \<Rightarrow> bool" where
  "relay_follows_state s \<longleftrightarrow> COMPRESSOR_RELAY s = actual_compressor_state (current_state s)"

text \<open>While the compressor is on, neither the off timestamp nor the max-runtime mark is
  set.\<close>

definition marks_clear_while_on :: "firmware \<Rightarrow> bool" where
  "marks_clear_while_on s \<longleftrightarrow>
     (actual_compressor_state (current_state s) \<longrightarrow>
        compressor_turned_off_at s = 0 \<and> exceeded_max_runtime_at s = 0)"

text \<open>A card that answers by position: the byte it returns to the \<open>n\<close>-th transfer since
  the bus was idle is \<open>reply n\<close>, whatever the host sends.\<close>

definition follows :: "(nat \<Rightarrow> u8) \<Rightarrow> nat \<Rightarrow> spi_bus \<Rightarrow> bool" where
  "follows reply n e \<longleftrightarrow> device e = (\<lambda>history. reply (length history)) \<and> length (sent e) = n"

section \<open>Concrete scenarios\<close>

text \<open>
  A card whose blocks are all zero (an empty log: the checksum of count 0 is 0), a layout
  that keeps the marker, the clock reading and the checksum of a record, and passes with
  steady sensor readings. The scenarios run the firmware from power-on with the default
  configuration: two minutes of startup delay, then the compressor starts at 121 s. The
  ticks between the passes listed, which with the same readings would change nothing but
  the time of the last update, are left out.
\<close>

definition blank_card :: card where
  "blank_card = \<lparr> blocks = (\<lambda>block_addr i. 0), outcomes = [] \<rparr>"

definition plain_layout :: "freezer_state_data_point \<Rightarrow> u8 list" where
  "plain_layout dp =
     map (of_nat \<circ> of_char) (start_magic_bytes dp) @ le_bytes (ms_since_startup dp) @ [crc_dp dp]"

definition pass :: "u32 \<Rightarrow> real \<Rightarrow> real \<Rightarrow> pass_input" where
  "pass now t1 t2 =
     \<lparr> millis = now, ntc_1_samples = replicate 10 t1, ntc_2_samples = replicate 10 t2,
       committed_config = None \<rparr>"

definition power_on :: firmware where
  "power_on = boot default_config False blank_card"

definition gate_passed :: firmware where
  "gate_passed =
     firmware_of (run plain_layout [pass 1000 (- 10) 30, pass 120000 (- 10) 30] (Running power_on))"

definition just_started :: firmware where
  "just_started = firmware_of (loop plain_layout (pass 121000 (- 10) 30) (Running gate_passed))"

definition tripped :: firmware where
  "tripped = firmware_of (loop plain_layout (pass 18121000 (- 10) 30) (Running just_started))"

definition within_target :: firmware where
  "within_target = firmware_of (loop plain_layout (pass 122000 (- 20) 30) (Running just_started))"

text \<open>
  The clock wraps after \<open>2 ^ 32\<close> ms. Here the freezer is within target from the start,
  so the compressor stops at 181 s; it is started again at 4276967296 ms, when the
  compartment has warmed up, and has run for the default maximum of 300 minutes when the
  clock reads exactly 0.
\<close>

definition late_start :: firmware where
  "late_start =
     firmware_of (run plain_layout
       [pass 121000 (- 20) 30, pass 181000 (- 20) 30, pass 4276967296 (- 10) 30]
       (Running gate_passed))"

definition wrapped :: firmware where
  "wrapped = firmware_of (loop plain_layout (pass 0 (- 10) 30) (Running late_start))"

text \<open>The reads of a tick at the wrap-around during which the counter steps from 0 to 1
  after the max-runtime mark is taken.\<close>

definition stepping :: clock_reads where
  "stepping = (one_reading 0)\<lparr>at_dead_time := 1, at_set_compressor := 1, at_log := 1\<rparr>"

text \<open>
  The firmware with logging enabled on the blank card, and two cards whose metadata blocks
  disagree: one with count 5 and its right checksum \<open>0x4E\<close> in block 0 and count 3 with
  a wrong checksum in block 1, and one with the two blocks exchanged.
\<close>

definition recording :: firmware where
  "recording = boot default_config True blank_card"

definition scenario_e_card :: card where
  "scenario_e_card =
     blank_card\<lparr>blocks := (blocks blank_card)
        (0 := sector_image \<lparr> count = 5, crc = 0x4E \<rparr>,
         1 := sector_image \<lparr> count = 3, crc = 0xFF \<rparr>)\<rparr>"

definition mirrored_card :: card where
  "mirrored_card =
     blank_card\<lparr>blocks := (blocks blank_card)
        (0 := sector_image \<lparr> count = 3, crc = 0xFF \<rparr>,
         1 := sector_image \<lparr> count = 5, crc = 0x4E \<rparr>)\<rparr>"

text \<open>
  Two buses. On the first the data line is stuck low: every reply is \<open>0x00\<close>, the value
  a busy card holds. On the second a card answers as a healthy one does up to the
  data-accepted status of a block write (idle \<open>0xFF\<close>, response \<open>0x00\<close> to the
  command on the eighth byte, status \<open>0x05\<close> on byte 524) and then stays busy for good.
  \<open>timed_out\<close> is the stuck bus after 9407 polls, 301.024 ms on.
\<close>

definition stuck_low :: spi_bus where
  "stuck_low = \<lparr> device = (\<lambda>history. 0x00), byte_time_us = 32, sent = [], elapsed_us = 0 \<rparr>"

definition is_stuck_low :: "spi_bus \<Rightarrow> bool" where
  "is_stuck_low e \<longleftrightarrow> device e = (\<lambda>history. 0x00)"

definition reply_of_busy_card :: "nat \<Rightarrow> u8" where
  "reply_of_busy_card n =
     (if n = 8 then 0x00 else if n < 524 then 0xFF else if n = 524 then 0x05 else 0x00)"

definition never_ready :: spi_bus where
  "never_ready =
     \<lparr> device = (\<lambda>history. reply_of_busy_card (length history)), byte_time_us = 32,
       sent = [], elapsed_us = 0 \<rparr>"

definition at_byte :: "nat \<Rightarrow> spi_bus \<Rightarrow> bool" where
  "at_byte n e \<longleftrightarrow>
     device e = (\<lambda>history. reply_of_busy_card (length history)) \<and> length (sent e) = n"

definition timed_out :: spi_bus where
  "timed_out = stuck_low\<lparr>sent := replicate 9407 0xFF, elapsed_us := 301024\<rparr>"

section \<open>Frame lemmas\<close>

lemma log_state_keeps [simp]:
  "current_state (log_state layout now s) = current_state s"
  "compressor_turned_off_at (log_state layout now s) = compressor_turned_off_at s"
  "compressor_turned_on_at (log_state layout now s) = compressor_turned_on_at s"
  "reached_target_temperature_at (log_state layout now s) = reached_target_temperature_at s"
  "exceeded_max_runtime_at (log_state layout now s) = exceeded_max_runtime_at s"
  "startup_delay_over (log_state layout now s) = startup_delay_over s"
  "COMPRESSOR_RELAY (log_state layout now s) = COMPRESSOR_RELAY s"
  "active_config (log_state layout now s) = active_config s"
  "logging_enabled (log_state layout now s) = logging_enabled s"
  by (simp_all add: log_state_def Let_def split: prod.splits)

lemma set_compressor_actual [simp]:
  "actual_compressor_state (current_state (set_compressor now st s)) = st"
  by (simp add: set_compressor_def Let_def)

lemma set_compressor_keeps [simp]:
  "target_compressor_state (current_state (set_compressor now st s))
     = target_compressor_state (current_state s)"
  "status (current_state (set_compressor now st s)) = status (current_state s)"
  "reached_target_temperature_at (set_compressor now st s) = reached_target_temperature_at s"
  "exceeded_max_runtime_at (set_compressor now st s) = exceeded_max_runtime_at s"
  "active_config (set_compressor now st s) = active_config s"
  "startup_delay_over (set_compressor now st s) = startup_delay_over s"
  "logging_enabled (set_compressor now st s) = logging_enabled s"
  "sd_card (set_compressor now st s) = sd_card s"
  by (simp_all add: set_compressor_def Let_def)

lemma set_compressor_off_at:
  "compressor_turned_off_at (set_compressor now st s) =
     (if st = actual_compressor_state (current_state s) then compressor_turned_off_at s
      else if st then 0 else now)"
  by (simp add: set_compressor_def Let_def)

lemma set_compressor_on_at:
  "compressor_turned_on_at (set_compressor now st s) =
     (if st = actual_compressor_state (current_state s) then compressor_turned_on_at s
      else if st then now else 0)"
  by (simp add: set_compressor_def Let_def)

lemma set_compressor_relay:
  "COMPRESSOR_RELAY s = actual_compressor_state (current_state s) \<Longrightarrow>
   COMPRESSOR_RELAY (set_compressor now st s) = st"
  by (simp add: set_compressor_def Let_def)

lemma exceeded_keeps [simp]:
  "current_state (snd (has_compressor_exceeded_max_runtime now s)) = current_state s"
  "reached_target_temperature_at (snd (has_compressor_exceeded_max_runtime now s))
     = reached_target_temperature_at s"
  "compressor_turned_off_at (snd (has_compressor_exceeded_max_runtime now s))
     = compressor_turned_off_at s"
  "compressor_turned_on_at (snd (has_compressor_exceeded_max_runtime now s))
     = compressor_turned_on_at s"
  "active_config (snd (has_compressor_exceeded_max_runtime now s)) = active_config s"
  "COMPRESSOR_RELAY (snd (has_compressor_exceeded_max_runtime now s)) = COMPRESSOR_RELAY s"
  "startup_delay_over (snd (has_compressor_exceeded_max_runtime now s)) = startup_delay_over s"
  by (simp_all add: has_compressor_exceeded_max_runtime_def)

lemma overrides_keeps [simp]:
  "target_compressor_state (current_state (snd (overrides now s)))
     = target_compressor_state (current_state s)"
  "actual_compressor_state (current_state (snd (overrides now s)))
     = actual_compressor_state (current_state s)"
  "reached_target_temperature_at (snd (overrides now s)) = reached_target_temperature_at s"
  "compressor_turned_off_at (snd (overrides now s)) = compressor_turned_off_at s"
  "compressor_turned_on_at (snd (overrides now s)) = compressor_turned_on_at s"
  "active_config (snd (overrides now s)) = active_config s"
  "COMPRESSOR_RELAY (snd (overrides now s)) = COMPRESSOR_RELAY s"
  "startup_delay_over (snd (overrides now s)) = startup_delay_over s"
  by (simp_all add: overrides_def set_status_def case_prod_beta)

lemma overrides_off:
  "\<not> target_compressor_state (current_state s) \<Longrightarrow> overrides now s = (False, s)"
  by (simp add: overrides_def)

lemma overrides_quiet:
  "\<not> fst (overrides now s) \<Longrightarrow>
   status (current_state (snd (overrides now s))) = status (current_state s)"
  by (auto simp add: overrides_def set_status_def case_prod_beta split: if_splits)

lemma overrides_clear:
  "\<not> fst (overrides now s) \<Longrightarrow> target_compressor_state (current_state s) \<Longrightarrow>
   exceeded_max_runtime_at (snd (overrides now s)) = 0"
  by (auto simp add: overrides_def set_status_def case_prod_beta
      has_compressor_exceeded_max_runtime_def split: if_splits)

lemma base_decision_keeps [simp]:
  "actual_compressor_state (current_state (base_decision now s))
     = actual_compressor_state (current_state s)"
  "compressor_turned_off_at (base_decision now s) = compressor_turned_off_at s"
  "compressor_turned_on_at (base_decision now s) = compressor_turned_on_at s"
  "exceeded_max_runtime_at (base_decision now s) = exceeded_max_runtime_at s"
  "active_config (base_decision now s) = active_config s"
  "COMPRESSOR_RELAY (base_decision now s) = COMPRESSOR_RELAY s"
  "startup_delay_over (base_decision now s) = startup_delay_over s"
  "current_ntc2_temperature (current_state (base_decision now s))
     = current_ntc2_temperature (current_state s)"
  by (simp_all add: base_decision_def Let_def)

lemma read_sensors_keeps [simp]:
  "actual_compressor_state (current_state (read_sensors inp s))
     = actual_compressor_state (current_state s)"
  "compressor_turned_off_at (read_sensors inp s) = compressor_turned_off_at s"
  "compressor_turned_on_at (read_sensors inp s) = compressor_turned_on_at s"
  "exceeded_max_runtime_at (read_sensors inp s) = exceeded_max_runtime_at s"
  "reached_target_temperature_at (read_sensors inp s) = reached_target_temperature_at s"
  "active_config (read_sensors inp s) = active_config s"
  "startup_delay_over (read_sensors inp s) = startup_delay_over s"
  "COMPRESSOR_RELAY (read_sensors inp s) = COMPRESSOR_RELAY s"
  "sd_card (read_sensors inp s) = sd_card s"
  by (simp_all add: read_sensors_def)

lemma dead_time_frame:
  "compressor_turned_off_at a = compressor_turned_off_at b \<Longrightarrow>
   active_config a = active_config b \<Longrightarrow>
   has_dead_time_elapsed now a = has_dead_time_elapsed now b"
  by (simp add: has_dead_time_elapsed_def)

section \<open>The branches of a tick\<close>

lemma validate_cases:
  "validate_temperatures now r = Running r
   \<or> (\<exists>error. validate_temperatures now r
         = Halted error ((set_compressor now False r)\<lparr>RED_LED_PIN := True\<rparr>))"
  by (simp add: validate_temperatures_def halt_def)

lemma update_state_halts:
  assumes "validate_temperatures (millis inp) (read_sensors inp s) = Halted error h"
  shows "update_state layout inp s = Halted error h"
  using assms by (simp add: update_state_def)

lemma update_state_gated:
  assumes "validate_temperatures (millis inp) (read_sensors inp s) = Running (read_sensors inp s)"
    and "\<not> startup_delay_over s"
  shows "update_state layout inp s =
     Running (log_state layout (millis inp)
       (set_status startup_delay
          ((read_sensors inp s)
             \<lparr>startup_delay_over := is_startup_delay_over (millis inp) (read_sensors inp s)\<rparr>)))"
  using assms by (simp add: update_state_def Let_def)

lemma update_state_decided:
  assumes "decides inp s"
  shows "update_state layout inp s =
     Running (log_state layout (millis inp)
       (set_compressor (millis inp)
          (target_compressor_state (current_state (base_decision (millis inp) (read_sensors inp s)))
            \<and> \<not> fst (overrides (millis inp) (base_decision (millis inp) (read_sensors inp s))))
          (snd (overrides (millis inp) (base_decision (millis inp) (read_sensors inp s))))))"
  using assms by (simp add: decides_def update_state_def Let_def case_prod_beta)

lemma run_Halted: "run layout inps (Halted error h) = Halted error h"
  by (induction inps) (simp_all add: loop_def)

section \<open>Evaluating the scenarios\<close>

lemma average_of_ten_replicate [simp]: "average_of_ten (replicate 10 t) = t"
  by (simp add: average_of_ten_def eval_nat_numeral)

lemma pass_simps [simp]:
  "millis (pass now t1 t2) = now"
  "average_of_ten (ntc_1_samples (pass now t1 t2)) = t1"
  "average_of_ten (ntc_2_samples (pass now t1 t2)) = t2"
  "committed_config (pass now t1 t2) = None"
  by (simp_all add: pass_def)

lemmas model_defs =
  loop_def update_state_def validate_temperatures_def read_sensors_def halt_def boot_def
  default_config_def default_state_def firmware_of_def Let_def set_status_def log_state_def
  is_startup_delay_over_def handle_input_def base_decision_def overrides_def set_compressor_def
  is_within_target_temperature_def is_compressor_overheating_def
  has_compressor_exceeded_max_runtime_def is_compressor_on_def has_dead_time_elapsed_def
  has_hysteresis_time_elapsed_def power_on_def decides_def commanded_on_def sees_overheat_def
  dead_time_ms_def max_run_time_ms_def cooling_down_def

lemma gate_passed_eq:
  "gate_passed = power_on
     \<lparr> current_state := \<lparr> current_ntc1_temperature = - 10, current_ntc2_temperature = 30,
          target_compressor_state = False, actual_compressor_state = False,
          status = startup_delay \<rparr>,
       state_updated_at := 120000, startup_delay_over := True \<rparr>"
  by (simp add: gate_passed_def model_defs)

lemma just_started_eq:
  "just_started = power_on
     \<lparr> current_state := \<lparr> current_ntc1_temperature = - 10, current_ntc2_temperature = 30,
          target_compressor_state = True, actual_compressor_state = True,
          status = cooling \<rparr>,
       compressor_turned_on_at := 121000, state_updated_at := 121000,
       startup_delay_over := True, COMPRESSOR_RELAY := True, BLUE_LED_PIN := True \<rparr>"
  by (simp add: just_started_def gate_passed_eq model_defs)

lemma tripped_eq:
  "tripped = power_on
     \<lparr> current_state := \<lparr> current_ntc1_temperature = - 10, current_ntc2_temperature = 30,
          target_compressor_state = True, actual_compressor_state = False,
          status = compressor_max_runtime \<rparr>,
       compressor_turned_off_at := 18121000, state_updated_at := 18121000,
       exceeded_max_runtime_at := 18121000,
       startup_delay_over := True \<rparr>"
  by (simp add: tripped_def just_started_eq model_defs)

lemma late_start_eq:
  "late_start = power_on
     \<lparr> current_state := \<lparr> current_ntc1_temperature = - 10, current_ntc2_temperature = 30,
          target_compressor_state = True, actual_compressor_state = True,
          status = cooling \<rparr>,
       compressor_turned_on_at := 4276967296, state_updated_at := 4276967296,
       startup_delay_over := True, COMPRESSOR_RELAY := True, BLUE_LED_PIN := True \<rparr>"
  by (simp add: late_start_def gate_passed_eq model_defs)

lemma wrapped_eq:
  "wrapped = power_on
     \<lparr> current_state := \<lparr> current_ntc1_temperature = - 10, current_ntc2_temperature = 30,
          target_compressor_state = True, actual_compressor_state = False,
          status = compressor_max_runtime \<rparr>,
       startup_delay_over := True \<rparr>"
  by (simp add: wrapped_def late_start_eq model_defs)

lemma within_target_eq:
  "within_target = power_on
     \<lparr> current_state := \<lparr> current_ntc1_temperature = - 20, current_ntc2_temperature = 30,
          target_compressor_state = True, actual_compressor_state = True,
          status = cooling \<rparr>,
       compressor_turned_on_at := 121000, reached_target_temperature_at := 122000,
       state_updated_at := 122000,
       startup_delay_over := True, COMPRESSOR_RELAY := True, BLUE_LED_PIN := True \<rparr>"
  by (simp add: within_target_def just_started_eq model_defs)

lemma tick_121000:
  "update_state plain_layout (pass 121000 (- 10) 30) gate_passed =
     Running (just_started\<lparr>state_updated_at := 120000\<rparr>)"
  "commanded_on (pass 121000 (- 10) 30) gate_passed"
  "\<not> fst (overrides 121000 (base_decision 121000 (read_sensors (pass 121000 (- 10) 30) gate_passed)))"
  by (simp_all add: gate_passed_eq just_started_eq model_defs)

lemma tick_18122000:
  "update_state plain_layout (pass 18122000 (- 10) 30) tripped = Running tripped"
  "commanded_on (pass 18122000 (- 10) 30) tripped"
  "fst (overrides 18122000 (base_decision 18122000 (read_sensors (pass 18122000 (- 10) 30) tripped)))"
  by (simp_all add: tripped_eq model_defs)

lemma tick_182000:
  "\<exists>s'. update_state plain_layout (pass 182000 (- 20) 30) within_target = Running s'"
  "\<not> commanded_on (pass 182000 (- 20) 30) within_target"
  by (simp_all add: within_target_eq model_defs)

section \<open>Actuation\<close>

text \<open>
  C1. For every tick: a tick that reaches the decision passes to \<^verbatim>\<open>set_compressor\<close> the
  conjunction of the commanded state and the negated \<^verbatim>\<open>override\<close>, and that conjunction is
  the compressor state the tick leaves; the override block is skipped (no override, no
  change of state) when the commanded state is off. A tick held by the startup gate leaves
  the compressor state as it was, and a tick that halts leaves it off. So no tick turns
  the compressor on unless it is commanded on with no override.
\<close>

theorem effective_state_is_commanded_and_not_overridden:
  "let b = base_decision (millis inp) (read_sensors inp s);
       commanded = target_compressor_state (current_state b);
       override = fst (overrides (millis inp) b);
       d = snd (overrides (millis inp) b)
   in (\<not> commanded \<longrightarrow> \<not> override \<and> d = b)
    \<and> (case update_state layout inp s of
         Halted error h \<Rightarrow> \<not> actual_compressor_state (current_state h)
       | Running s' \<Rightarrow>
           if startup_delay_over s
           then s' = log_state layout (millis inp)
                       (set_compressor (millis inp) (commanded \<and> \<not> override) d)
              \<and> actual_compressor_state (current_state s') = (commanded \<and> \<not> override)
              \<and> target_compressor_state (current_state s') = commanded
           else actual_compressor_state (current_state s')
                  = actual_compressor_state (current_state s))"
proof -
  let ?r = "read_sensors inp s"
  let ?b = "base_decision (millis inp) ?r"
  have skip: "\<not> target_compressor_state (current_state ?b) \<longrightarrow>
      \<not> fst (overrides (millis inp) ?b) \<and> snd (overrides (millis inp) ?b) = ?b"
    by (simp add: overrides_off)
  have tick: "case update_state layout inp s of
         Halted error h \<Rightarrow> \<not> actual_compressor_state (current_state h)
       | Running s' \<Rightarrow>
           if startup_delay_over s
           then s' = log_state layout (millis inp)
                       (set_compressor (millis inp)
                          (target_compressor_state (current_state ?b)
                             \<and> \<not> fst (overrides (millis inp) ?b))
                          (snd (overrides (millis inp) ?b)))
              \<and> actual_compressor_state (current_state s')
                  = (target_compressor_state (current_state ?b) \<and> \<not> fst (overrides (millis inp) ?b))
              \<and> target_compressor_state (current_state s')
                  = target_compressor_state (current_state ?b)
           else actual_compressor_state (current_state s')
                  = actual_compressor_state (current_state s)"
  proof -
    consider (ok) "validate_temperatures (millis inp) ?r = Running ?r"
      | (fault) error where "validate_temperatures (millis inp) ?r
           = Halted error ((set_compressor (millis inp) False ?r)\<lparr>RED_LED_PIN := True\<rparr>)"
      using validate_cases [of "millis inp" ?r] by blast
    then show ?thesis
    proof cases
      case ok
      show ?thesis
      proof (cases "startup_delay_over s")
        case True
        then have "decides inp s" using ok by (simp add: decides_def)
        from update_state_decided [OF this, of layout] True show ?thesis by simp
      next
        case False
        from update_state_gated [OF ok False, of layout] False show ?thesis
          by (simp add: set_status_def)
      qed
    next
      case fault
      from update_state_halts [OF fault, of layout] show ?thesis by simp
    qed
  qed
  show ?thesis using skip tick by (simp add: Let_def)
qed

theorem effective_state_is_commanded_and_not_overridden_witness:
  "commanded_on (pass 121000 (- 10) 30) gate_passed
   \<and> \<not> fst (overrides 121000 (base_decision 121000 (read_sensors (pass 121000 (- 10) 30) gate_passed)))
   \<and> \<not> actual_compressor_state (current_state gate_passed)
   \<and> actual_compressor_state (current_state
        (firmware_of (update_state plain_layout (pass 121000 (- 10) 30) gate_passed)))
   \<and> commanded_on (pass 18122000 (- 10) 30) tripped
   \<and> fst (overrides 18122000 (base_decision 18122000 (read_sensors (pass 18122000 (- 10) 30) tripped)))
   \<and> \<not> actual_compressor_state (current_state
        (firmware_of (update_state plain_layout (pass 18122000 (- 10) 30) tripped)))
   \<and> \<not> commanded_on (pass 182000 (- 20) 30) within_target
   \<and> \<not> actual_compressor_state (current_state
        (firmware_of (update_state plain_layout (pass 182000 (- 20) 30) within_target)))"
proof -
  have g: "startup_delay_over gate_passed" "\<not> actual_compressor_state (current_state gate_passed)"
    "startup_delay_over tripped" "startup_delay_over within_target"
    by (simp_all add: gate_passed_eq tripped_eq within_target_eq power_on_def boot_def)
  have a: "actual_compressor_state (current_state
        (firmware_of (update_state plain_layout (pass 121000 (- 10) 30) gate_passed)))"
    using effective_state_is_commanded_and_not_overridden
          [of "pass 121000 (- 10) 30" gate_passed plain_layout] tick_121000 g
    by (auto simp add: Let_def firmware_of_def commanded_on_def split: system.splits)
  have b: "\<not> actual_compressor_state (current_state
        (firmware_of (update_state plain_layout (pass 18122000 (- 10) 30) tripped)))"
    using effective_state_is_commanded_and_not_overridden
          [of "pass 18122000 (- 10) 30" tripped plain_layout] tick_18122000 g
    by (auto simp add: Let_def firmware_of_def commanded_on_def split: system.splits)
  have c: "\<not> actual_compressor_state (current_state
        (firmware_of (update_state plain_layout (pass 182000 (- 20) 30) within_target)))"
    using effective_state_is_commanded_and_not_overridden
          [of "pass 182000 (- 20) 30" within_target plain_layout] tick_182000 g
    by (auto simp add: Let_def firmware_of_def commanded_on_def split: system.splits)
  show ?thesis using a b c tick_121000 tick_18122000 tick_182000 g by simp
qed

section \<open>Sensor faults\<close>

lemma update_state_relay:
  assumes "relay_follows_state s" and "update_state layout inp s = Running s'"
  shows "relay_follows_state s'"
proof -
  let ?r = "read_sensors inp s"
  have v: "validate_temperatures (millis inp) ?r = Running ?r"
    using assms(2) validate_cases [of "millis inp" ?r] by (auto simp add: update_state_def)
  show ?thesis
  proof (cases "startup_delay_over s")
    case True
    then have "decides inp s" using v by (simp add: decides_def)
    from update_state_decided [OF this, of layout] assms show ?thesis
      by (auto simp add: relay_follows_state_def set_compressor_relay)
  next
    case False
    from update_state_gated [OF v False, of layout] assms show ?thesis
      by (auto simp add: relay_follows_state_def set_status_def)
  qed
qed

lemma loop_relay:
  assumes "relay_follows_state s" and "loop layout inp (Running s) = Running s'"
  shows "relay_follows_state s'"
proof (cases "millis inp - state_updated_at s \<ge> 1000")
  case True
  let ?s = "if config_is_dirty s
            then s\<lparr>active_config := dirty_config s, config_is_dirty := False\<rparr> else s"
  have i: "relay_follows_state ?s" using assms(1) by (simp add: relay_follows_state_def)
  obtain u where u: "update_state layout inp ?s = Running u"
    and s': "s' = handle_input inp (u\<lparr>state_updated_at := millis inp\<rparr>)"
    using assms(2) True by (auto simp add: loop_def Let_def split: system.splits)
  from update_state_relay [OF i u] show ?thesis
    by (simp add: s' relay_follows_state_def handle_input_def split: option.splits)
next
  case False
  then have "s' = handle_input inp s" using assms(2) by (simp add: loop_def)
  then show ?thesis using assms(1)
    by (simp add: relay_follows_state_def handle_input_def split: option.splits)
qed

lemma run_relay:
  "relay_follows_state s \<Longrightarrow> run layout inps (Running s) = Running s' \<Longrightarrow> relay_follows_state s'"
proof (induction inps arbitrary: s)
  case Nil
  then show ?case by simp
next
  case (Cons inp inps)
  show ?case
  proof (cases "loop layout inp (Running s)")
    case (Running u)
    with Cons.prems(2) have "run layout inps (Running u) = Running s'" by simp
    moreover have "relay_follows_state u" using loop_relay [OF Cons.prems(1) Running] .
    ultimately show ?thesis using Cons.IH by blast
  next
    case (Halted error h)
    with Cons.prems(2) show ?thesis by (simp add: run_Halted)
  qed
qed

lemma relay_from_power_on:
  "run layout inps (Running (boot cfg logging c)) = Running s \<Longrightarrow>
   COMPRESSOR_RELAY s = actual_compressor_state (current_state s)"
  using run_relay [of "boot cfg logging c" layout inps s]
  by (simp add: relay_follows_state_def boot_def default_state_def)

lemma update_state_fault:
  assumes fault: "average_of_ten (ntc_1_samples inp) < - 100
      \<or> average_of_ten (ntc_1_samples inp) > 100
      \<or> average_of_ten (ntc_2_samples inp) > 100"
    and relay: "COMPRESSOR_RELAY s = actual_compressor_state (current_state s)"
  shows "\<exists>error h. update_state layout inp s = Halted error h
           \<and> error = (if average_of_ten (ntc_1_samples inp) < - 100
                         \<or> average_of_ten (ntc_1_samples inp) > 100 then ''N1'' else ''N2'')
           \<and> \<not> actual_compressor_state (current_state h) \<and> \<not> COMPRESSOR_RELAY h
           \<and> sd_card h = sd_card s"
proof -
  let ?r = "read_sensors inp s"
  have "COMPRESSOR_RELAY ?r = actual_compressor_state (current_state ?r)"
    using relay by simp
  then have "\<not> COMPRESSOR_RELAY (set_compressor (millis inp) False ?r)"
    by (simp add: set_compressor_relay)
  then show ?thesis
    using fault
    by (auto simp add: update_state_def validate_temperatures_def halt_def read_sensors_def)
qed

text \<open>
  C2. If the averaged primary reading of a tick is below -100 or above 100, or the
  secondary one is above 100, the pass of the loop that runs the tick ends halted (with
  \<^verbatim>\<open>N1\<close> or \<^verbatim>\<open>N2\<close>): the compressor state and the relay pin are off, the card is as it
  was before the tick, and whatever passes follow, the halted system stays exactly as it
  is, so neither the compressor nor the log changes again. The relay pin is assumed to
  agree with the compressor state before the tick, as it does in every state reached from
  power-on (\<open>relay_from_power_on\<close>).
\<close>

theorem sensor_fault_halts_for_good:
  assumes fault: "average_of_ten (ntc_1_samples inp) < - 100
      \<or> average_of_ten (ntc_1_samples inp) > 100
      \<or> average_of_ten (ntc_2_samples inp) > 100"
    and relay: "COMPRESSOR_RELAY s = actual_compressor_state (current_state s)"
    and due: "millis inp - state_updated_at s \<ge> 1000"
  shows "\<exists>error h. loop layout inp (Running s) = Halted error h
           \<and> error = (if average_of_ten (ntc_1_samples inp) < - 100
                         \<or> average_of_ten (ntc_1_samples inp) > 100 then ''N1'' else ''N2'')
           \<and> \<not> actual_compressor_state (current_state h) \<and> \<not> COMPRESSOR_RELAY h
           \<and> sd_card h = sd_card s
           \<and> (\<forall>inps. run layout inps (Halted error h) = Halted error h)"
proof -
  let ?s = "if config_is_dirty s
            then s\<lparr>active_config := dirty_config s, config_is_dirty := False\<rparr> else s"
  have "COMPRESSOR_RELAY ?s = actual_compressor_state (current_state ?s)"
    using relay by simp
  from update_state_fault [OF fault this, of layout]
  obtain error h where h: "update_state layout inp ?s = Halted error h"
    "error = (if average_of_ten (ntc_1_samples inp) < - 100
                \<or> average_of_ten (ntc_1_samples inp) > 100 then ''N1'' else ''N2'')"
    "\<not> actual_compressor_state (current_state h)" "\<not> COMPRESSOR_RELAY h"
    "sd_card h = sd_card ?s"
    by blast
  have "loop layout inp (Running s) = Halted error h"
    using due h(1) by (simp add: loop_def Let_def)
  moreover have "sd_card h = sd_card s" using h(5) by simp
  ultimately show ?thesis using h(2,3,4) run_Halted by blast
qed

theorem sensor_fault_halts_for_good_witness:
  "actual_compressor_state (current_state just_started)
   \<and> (\<exists>h. loop plain_layout (pass 122000 150 30) (Running just_started) = Halted ''N1'' h
         \<and> \<not> actual_compressor_state (current_state h) \<and> \<not> COMPRESSOR_RELAY h
         \<and> sd_card h = sd_card just_started
         \<and> run plain_layout [pass 123000 (- 10) 30, pass 124000 (- 10) 30] (Halted ''N1'' h)
             = Halted ''N1'' h)"
proof -
  have fault: "average_of_ten (ntc_1_samples (pass 122000 150 30)) < - 100
      \<or> average_of_ten (ntc_1_samples (pass 122000 150 30)) > 100
      \<or> average_of_ten (ntc_2_samples (pass 122000 150 30)) > 100"
    by simp
  have relay: "COMPRESSOR_RELAY just_started = actual_compressor_state (current_state just_started)"
    by (simp add: just_started_eq)
  have due: "millis (pass 122000 150 30) - state_updated_at just_started \<ge> 1000"
    by (simp add: just_started_eq)
  have on: "actual_compressor_state (current_state just_started)"
    by (simp add: just_started_eq)
  from sensor_fault_halts_for_good [OF fault relay due, of plain_layout]
  obtain h where h: "loop plain_layout (pass 122000 150 30) (Running just_started) = Halted ''N1'' h"
    "\<not> actual_compressor_state (current_state h)" "\<not> COMPRESSOR_RELAY h"
    "sd_card h = sd_card just_started"
    "\<forall>inps. run plain_layout inps (Halted ''N1'' h) = Halted ''N1'' h"
    by auto
  from h(5) have "run plain_layout [pass 123000 (- 10) 30, pass 124000 (- 10) 30] (Halted ''N1'' h)
             = Halted ''N1'' h" by blast
  with on h(1-4) show ?thesis by blast
qed

section \<open>Target evaluation\<close>

text \<open>
  C5. On every tick that passes sensor validation after the startup gate has latched:
  if the primary reading is at most the target temperature, the target-reached timer
  keeps its value when it is set (non-zero) and takes the clock reading otherwise, and
  the tick commands off with status ReachedTarget exactly when the clock is at least the
  hysteresis time past that timer value, and commands on with status Cooling otherwise;
  if the primary reading is above the target, the timer is cleared and the tick commands
  on with status Cooling. The status meant is the one the target evaluation sets: it is
  the status the tick ends with when no override is active, and always when the tick
  commands off.
\<close>

theorem target_evaluation:
  assumes "decides inp s"
  shows "\<exists>s'. update_state layout inp s = Running s' \<and>
     (let b = base_decision (millis inp) (read_sensors inp s);
          primary = average_of_ten (ntc_1_samples inp);
          dwell = (scast (target_temperature_hysteresis_time (active_config s)) :: u32) * 1000
      in target_compressor_state (current_state s') = target_compressor_state (current_state b)
       \<and> reached_target_temperature_at s' = reached_target_temperature_at b
       \<and> (if primary \<le> target_temperature (active_config s)
          then reached_target_temperature_at s' =
                 (if reached_target_temperature_at s = 0 then millis inp
                  else reached_target_temperature_at s)
             \<and> (if millis inp - reached_target_temperature_at s' \<ge> dwell
                then \<not> target_compressor_state (current_state s')
                     \<and> status (current_state b) = reached_target
                     \<and> status (current_state s') = reached_target
                else target_compressor_state (current_state s')
                     \<and> status (current_state b) = cooling)
          else reached_target_temperature_at s' = 0
             \<and> target_compressor_state (current_state s')
             \<and> status (current_state b) = cooling)
       \<and> (\<not> fst (overrides (millis inp) b) \<longrightarrow>
             status (current_state s') = status (current_state b)))"
proof -
  let ?now = "millis inp"
  let ?b = "base_decision ?now (read_sensors inp s)"
  let ?o = "overrides ?now ?b"
  have k: "\<not> fst ?o \<longrightarrow> status (current_state (snd ?o)) = status (current_state ?b)"
    "\<not> target_compressor_state (current_state ?b)
       \<longrightarrow> status (current_state (snd ?o)) = status (current_state ?b)"
    using overrides_quiet [of ?now ?b] overrides_off [of ?b ?now] by auto
  have b: "if average_of_ten (ntc_1_samples inp) \<le> target_temperature (active_config s)
        then reached_target_temperature_at ?b =
               (if reached_target_temperature_at s = 0 then millis inp
                else reached_target_temperature_at s)
           \<and> (if millis inp - reached_target_temperature_at ?b
                   \<ge> (scast (target_temperature_hysteresis_time (active_config s)) :: u32) * 1000
              then \<not> target_compressor_state (current_state ?b)
                   \<and> status (current_state ?b) = reached_target
              else target_compressor_state (current_state ?b)
                   \<and> status (current_state ?b) = cooling)
        else reached_target_temperature_at ?b = 0
           \<and> target_compressor_state (current_state ?b)
           \<and> status (current_state ?b) = cooling"
    by (simp add: base_decision_def read_sensors_def is_within_target_temperature_def
        has_hysteresis_time_elapsed_def Let_def)
  show ?thesis
    using update_state_decided [OF assms, of layout] k b
    by (simp add: Let_def split: if_splits)
qed

theorem target_evaluation_witness:
  "decides (pass 122000 (- 20) 30) just_started
   \<and> status (current_state (firmware_of (update_state plain_layout (pass 122000 (- 20) 30) just_started)))
       = cooling
   \<and> reached_target_temperature_at
       (firmware_of (update_state plain_layout (pass 122000 (- 20) 30) just_started)) = 122000
   \<and> decides (pass 182000 (- 20) 30) within_target
   \<and> status (current_state (firmware_of (update_state plain_layout (pass 182000 (- 20) 30) within_target)))
       = reached_target
   \<and> \<not> target_compressor_state
       (current_state (firmware_of (update_state plain_layout (pass 182000 (- 20) 30) within_target)))"
proof -
  have d1: "decides (pass 122000 (- 20) 30) just_started"
    by (simp add: just_started_eq model_defs)
  have d2: "decides (pass 182000 (- 20) 30) within_target"
    by (simp add: within_target_eq model_defs)
  from target_evaluation [OF d1, of plain_layout]
  obtain s1 where s1: "update_state plain_layout (pass 122000 (- 20) 30) just_started = Running s1"
    "status (current_state s1) = cooling" "reached_target_temperature_at s1 = 122000"
    by (auto simp add: just_started_eq model_defs)
  from target_evaluation [OF d2, of plain_layout]
  obtain s2 where s2: "update_state plain_layout (pass 182000 (- 20) 30) within_target = Running s2"
    "status (current_state s2) = reached_target" "\<not> target_compressor_state (current_state s2)"
    by (auto simp add: within_target_eq model_defs)
  show ?thesis using d1 d2 s1 s2 by (simp add: firmware_of_def)
qed

section \<open>Invariant of the timestamps\<close>

lemma update_state_marks_clear:
  assumes "marks_clear_while_on s" and "update_state layout inp s = Running s'"
  shows "marks_clear_while_on s'"
proof -
  let ?r = "read_sensors inp s"
  have v: "validate_temperatures (millis inp) ?r = Running ?r"
    using assms(2) validate_cases [of "millis inp" ?r] by (auto simp add: update_state_def)
  show ?thesis
  proof (cases "startup_delay_over s")
    case True
    then have "decides inp s" using v by (simp add: decides_def)
    from update_state_decided [OF this, of layout] assms show ?thesis
      by (auto simp add: marks_clear_while_on_def set_compressor_off_at overrides_clear)
  next
    case False
    from update_state_gated [OF v False, of layout] assms show ?thesis
      by (auto simp add: marks_clear_while_on_def set_status_def)
  qed
qed

lemma loop_marks_clear:
  assumes "marks_clear_while_on s" and "loop layout inp (Running s) = Running s'"
  shows "marks_clear_while_on s'"
proof (cases "millis inp - state_updated_at s \<ge> 1000")
  case True
  let ?s = "if config_is_dirty s
            then s\<lparr>active_config := dirty_config s, config_is_dirty := False\<rparr> else s"
  have i: "marks_clear_while_on ?s" using assms(1) by (simp add: marks_clear_while_on_def)
  obtain u where u: "update_state layout inp ?s = Running u"
    and s': "s' = handle_input inp (u\<lparr>state_updated_at := millis inp\<rparr>)"
    using assms(2) True by (auto simp add: loop_def Let_def split: system.splits)
  from update_state_marks_clear [OF i u] show ?thesis
    by (simp add: s' marks_clear_while_on_def handle_input_def split: option.splits)
next
  case False
  then have "s' = handle_input inp s" using assms(2) by (simp add: loop_def)
  then show ?thesis using assms(1)
    by (simp add: marks_clear_while_on_def handle_input_def split: option.splits)
qed

lemma run_marks_clear:
  "marks_clear_while_on s \<Longrightarrow> run layout inps (Running s) = Running s' \<Longrightarrow> marks_clear_while_on s'"
proof (induction inps arbitrary: s)
  case Nil
  then show ?case by simp
next
  case (Cons inp inps)
  show ?case
  proof (cases "loop layout inp (Running s)")
    case (Running u)
    with Cons.prems(2) have "run layout inps (Running u) = Running s'" by simp
    moreover have "marks_clear_while_on u" using loop_marks_clear [OF Cons.prems(1) Running] .
    ultimately show ?thesis using Cons.IH by blast
  next
    case (Halted error h)
    with Cons.prems(2) show ?thesis by (simp add: run_Halted)
  qed
qed


section \<open>Max runtime and dead time\<close>

subsection \<open>The two models of the tick agree\<close>

lemma one_reading_simps [simp]:
  "at_startup_delay (one_reading now) = now" "at_timer_start (one_reading now) = now"
  "at_hysteresis (one_reading now) = now" "at_pending_dead_time (one_reading now) = now"
  "at_run_time (one_reading now) = now" "at_mark (one_reading now) = now"
  "at_dead_time (one_reading now) = now" "at_set_compressor (one_reading now) = now"
  "at_log (one_reading now) = now"
  by (simp_all add: one_reading_def)

lemma reads_agree:
  "has_compressor_exceeded_max_runtime_reads (one_reading now) s = has_compressor_exceeded_max_runtime now s"
  "base_decision_reads (one_reading now) s = base_decision now s"
  "overrides_reads (one_reading now) s = overrides now s"
  by (simp_all add: has_compressor_exceeded_max_runtime_reads_def has_compressor_exceeded_max_runtime_def
      base_decision_reads_def base_decision_def overrides_reads_def overrides_def)

lemma update_state_one_reading:
  "update_state_reads layout (one_reading (millis inp)) inp s = update_state layout inp s"
  by (simp add: update_state_reads_def update_state_def reads_agree Let_def split: system.splits)

lemma validate_any_clock:
  "validate_temperatures now r = Running r \<Longrightarrow> validate_temperatures now' r = Running r"
  by (simp add: validate_temperatures_def halt_def split: if_splits)

lemma base_decision_reads_keeps [simp]:
  "actual_compressor_state (current_state (base_decision_reads rd s))
     = actual_compressor_state (current_state s)"
  "compressor_turned_off_at (base_decision_reads rd s) = compressor_turned_off_at s"
  "compressor_turned_on_at (base_decision_reads rd s) = compressor_turned_on_at s"
  "exceeded_max_runtime_at (base_decision_reads rd s) = exceeded_max_runtime_at s"
  "active_config (base_decision_reads rd s) = active_config s"
  "startup_delay_over (base_decision_reads rd s) = startup_delay_over s"
  "current_ntc2_temperature (current_state (base_decision_reads rd s))
     = current_ntc2_temperature (current_state s)"
  by (simp_all add: base_decision_reads_def Let_def)

lemma exceeded_reads_keeps [simp]:
  "current_state (snd (has_compressor_exceeded_max_runtime_reads rd s)) = current_state s"
  "compressor_turned_off_at (snd (has_compressor_exceeded_max_runtime_reads rd s))
     = compressor_turned_off_at s"
  "active_config (snd (has_compressor_exceeded_max_runtime_reads rd s)) = active_config s"
  "startup_delay_over (snd (has_compressor_exceeded_max_runtime_reads rd s)) = startup_delay_over s"
  by (simp_all add: has_compressor_exceeded_max_runtime_reads_def)

lemma overrides_reads_keeps [simp]:
  "target_compressor_state (current_state (snd (overrides_reads rd s)))
     = target_compressor_state (current_state s)"
  "actual_compressor_state (current_state (snd (overrides_reads rd s)))
     = actual_compressor_state (current_state s)"
  "compressor_turned_off_at (snd (overrides_reads rd s)) = compressor_turned_off_at s"
  "active_config (snd (overrides_reads rd s)) = active_config s"
  "startup_delay_over (snd (overrides_reads rd s)) = startup_delay_over s"
  by (simp_all add: overrides_reads_def set_status_def case_prod_beta)

lemma base_decision_reads_on:
  "target_compressor_state (current_state (base_decision_reads rd s)) \<Longrightarrow>
   status (current_state (base_decision_reads rd s)) = cooling"
  by (simp add: base_decision_reads_def Let_def split: if_splits)

lemma update_state_reads_decided:
  assumes "decides inp s"
  shows "update_state_reads layout rd inp s =
     Running (log_state layout (at_log rd)
       (set_compressor (at_set_compressor rd)
          (target_compressor_state (current_state (base_decision_reads rd (read_sensors inp s)))
            \<and> \<not> fst (overrides_reads rd (base_decision_reads rd (read_sensors inp s))))
          (snd (overrides_reads rd (base_decision_reads rd (read_sensors inp s))))))"
proof -
  have "validate_temperatures (at_set_compressor rd) (read_sensors inp s) = Running (read_sensors inp s)"
    using assms by (auto simp add: decides_def intro: validate_any_clock)
  then show ?thesis
    using assms by (simp add: decides_def update_state_reads_def Let_def case_prod_beta)
qed

text \<open>Every tick keeps the invariant of the timestamps, whatever its clock reads.\<close>

lemma overrides_reads_clear:
  "\<not> fst (overrides_reads rd s) \<Longrightarrow> target_compressor_state (current_state s) \<Longrightarrow>
   exceeded_max_runtime_at (snd (overrides_reads rd s)) = 0"
  by (auto simp add: overrides_reads_def set_status_def case_prod_beta
      has_compressor_exceeded_max_runtime_reads_def split: if_splits)

lemma update_state_reads_marks_clear:
  assumes "marks_clear_while_on s" and "update_state_reads layout rd inp s = Running s'"
  shows "marks_clear_while_on s'"
proof -
  let ?r = "read_sensors inp s"
  have v: "validate_temperatures (at_set_compressor rd) ?r = Running ?r"
    using assms(2) validate_cases [of "at_set_compressor rd" ?r]
    by (auto simp add: update_state_reads_def)
  then have v': "validate_temperatures (millis inp) ?r = Running ?r"
    by (rule validate_any_clock)
  show ?thesis
  proof (cases "startup_delay_over s")
    case True
    then have "decides inp s" using v' by (simp add: decides_def)
    from update_state_reads_decided [OF this, of layout rd] assms show ?thesis
      by (auto simp add: marks_clear_while_on_def set_compressor_off_at overrides_reads_clear)
  next
    case False
    then show ?thesis
      using assms v
      by (auto simp add: update_state_reads_def Let_def marks_clear_while_on_def set_status_def)
  qed
qed

subsection \<open>A pending override\<close>

text \<open>
  While a max-runtime mark and an off timestamp \<open>t0\<close> are both set (neither is 0) and the
  dead-time test made for the mark finds less than the configured dead time since \<open>t0\<close>,
  a tick leaves the compressor off and the override pending, with status MaxRuntime
  whenever it commands on and sees no overheat. Once both dead-time tests of a tick find
  the dead time elapsed, a tick that commands on without overheat clears the mark and
  switches the compressor on with status Cooling.
\<close>

lemma pending_override_lasts_dead_time:
  assumes "decides inp s" and "cooling_down t0 s"
  shows "(at_pending_dead_time rd - t0 < dead_time_ms s
          \<longrightarrow> (\<exists>s'. update_state_reads layout rd inp s = Running s'
                 \<and> \<not> actual_compressor_state (current_state s')
                 \<and> cooling_down t0 s'
                 \<and> (commanded_on_reads rd inp s \<and> \<not> sees_overheat inp s
                      \<longrightarrow> status (current_state s') = compressor_max_runtime)))
       \<and> (at_pending_dead_time rd - t0 \<ge> dead_time_ms s \<and> at_dead_time rd - t0 \<ge> dead_time_ms s
          \<and> commanded_on_reads rd inp s \<and> \<not> sees_overheat inp s
          \<longrightarrow> (\<exists>s'. update_state_reads layout rd inp s = Running s'
                 \<and> status (current_state s') = cooling
                 \<and> actual_compressor_state (current_state s')
                 \<and> compressor_turned_on_at s' = at_set_compressor rd
                 \<and> exceeded_max_runtime_at s' = 0))"
proof -
  let ?b = "base_decision_reads rd (read_sensors inp s)"
  note u = update_state_reads_decided [OF assms(1), of layout rd]
  have a: "0 < exceeded_max_runtime_at s"
    using assms(2) by (simp add: cooling_down_def word_greater_zero_iff)
  have hold: "\<exists>s'. update_state_reads layout rd inp s = Running s'
                 \<and> \<not> actual_compressor_state (current_state s')
                 \<and> cooling_down t0 s'
                 \<and> (commanded_on_reads rd inp s \<and> \<not> sees_overheat inp s
                      \<longrightarrow> status (current_state s') = compressor_max_runtime)"
    if h: "at_pending_dead_time rd - t0 < dead_time_ms s"
  proof -
    have "\<not> has_dead_time_elapsed (at_pending_dead_time rd) s"
      using h assms(2) by (simp add: cooling_down_def has_dead_time_elapsed_def dead_time_ms_def not_le)
    then have d: "\<not> has_dead_time_elapsed (at_pending_dead_time rd) ?b"
      using dead_time_frame [of ?b s "at_pending_dead_time rd"] by simp
    have e: "has_compressor_exceeded_max_runtime_reads rd ?b = (True, ?b)"
      using a d by (simp add: has_compressor_exceeded_max_runtime_reads_def)
    have o: "overrides_reads rd ?b =
        (if target_compressor_state (current_state ?b)
         then (True, set_status (if is_compressor_overheating (read_sensors inp s)
                                 then overheat else compressor_max_runtime) ?b)
         else (False, ?b))"
      using e by (simp add: overrides_reads_def is_compressor_overheating_def)
    show ?thesis
      using u assms(2)
      by (simp add: o set_status_def set_compressor_def is_compressor_on_def cooling_down_def
          commanded_on_reads_def sees_overheat_def)
  qed
  have release: "\<exists>s'. update_state_reads layout rd inp s = Running s'
                 \<and> status (current_state s') = cooling
                 \<and> actual_compressor_state (current_state s')
                 \<and> compressor_turned_on_at s' = at_set_compressor rd
                 \<and> exceeded_max_runtime_at s' = 0"
    if h: "at_pending_dead_time rd - t0 \<ge> dead_time_ms s" "at_dead_time rd - t0 \<ge> dead_time_ms s"
       "commanded_on_reads rd inp s" "\<not> sees_overheat inp s"
  proof -
    have "has_dead_time_elapsed (at_pending_dead_time rd) s" "has_dead_time_elapsed (at_dead_time rd) s"
      using h assms(2) by (simp_all add: cooling_down_def has_dead_time_elapsed_def dead_time_ms_def)
    then have d: "has_dead_time_elapsed (at_pending_dead_time rd) ?b"
      and d': "has_dead_time_elapsed (at_dead_time rd) (?b\<lparr>exceeded_max_runtime_at := 0\<rparr>)"
      using dead_time_frame [of ?b s "at_pending_dead_time rd"]
        dead_time_frame [of "?b\<lparr>exceeded_max_runtime_at := 0\<rparr>" s "at_dead_time rd"] by simp_all
    have e: "has_compressor_exceeded_max_runtime_reads rd ?b
        = (False, ?b\<lparr>exceeded_max_runtime_at := 0\<rparr>)"
      using a d by (simp add: has_compressor_exceeded_max_runtime_reads_def)
    have on: "target_compressor_state (current_state ?b)"
      using h(3) by (simp add: commanded_on_reads_def)
    have o: "overrides_reads rd ?b = (False, ?b\<lparr>exceeded_max_runtime_at := 0\<rparr>)"
      using e d' on h(4)
      by (simp add: overrides_reads_def is_compressor_overheating_def sees_overheat_def)
    show ?thesis
      using u assms(2) on base_decision_reads_on [OF on]
      by (simp add: o set_compressor_def is_compressor_on_def cooling_down_def)
  qed
  show ?thesis using hold release by blast
qed

text \<open>Scenario B with the default configuration, every read of a tick returning the same
  value: the compressor starts at 121 s and is stopped 300 minutes later with status
  MaxRuntime; one second later it is still held off with that status, and five minutes
  after the stop it runs again.\<close>

lemma scenario_b:
  "is_compressor_on just_started \<and> compressor_turned_on_at just_started = 121000
   \<and> update_state plain_layout (pass 18121000 (- 10) 30) just_started
        = Running (tripped\<lparr>state_updated_at := 121000\<rparr>)
   \<and> status (current_state tripped) = compressor_max_runtime \<and> \<not> is_compressor_on tripped
   \<and> compressor_turned_off_at tripped = 18121000
   \<and> update_state plain_layout (pass 18122000 (- 10) 30) tripped = Running tripped
   \<and> is_compressor_on (firmware_of (update_state plain_layout (pass 18421000 (- 10) 30) tripped))
   \<and> status (current_state (firmware_of (update_state plain_layout (pass 18421000 (- 10) 30) tripped)))
        = cooling"
  by (simp add: just_started_eq tripped_eq model_defs)

subsection \<open>A trip when the clock reads 0\<close>

lemma restart_when_off_unset:
  assumes "decides inp s" and "\<not> is_compressor_on s" and "compressor_turned_off_at s = 0"
    and "commanded_on_reads rd inp s" and "\<not> sees_overheat inp s"
  shows "\<exists>s'. update_state_reads layout rd inp s = Running s'
           \<and> actual_compressor_state (current_state s')
           \<and> status (current_state s') = cooling"
proof -
  let ?b = "base_decision_reads rd (read_sensors inp s)"
  have on: "target_compressor_state (current_state ?b)"
    using assms(4) by (simp add: commanded_on_reads_def)
  have e: "has_compressor_exceeded_max_runtime_reads rd ?b = (False, ?b\<lparr>exceeded_max_runtime_at := 0\<rparr>)"
    using assms(2,3)
    by (simp add: has_compressor_exceeded_max_runtime_reads_def has_dead_time_elapsed_def
        is_compressor_on_def)
  have o: "overrides_reads rd ?b = (False, ?b\<lparr>exceeded_max_runtime_at := 0\<rparr>)"
    using on assms(3,5) e
    by (simp add: overrides_reads_def sees_overheat_def is_compressor_overheating_def
        has_dead_time_elapsed_def)
  show ?thesis
    using update_state_reads_decided [OF assms(1), of layout rd] on base_decision_reads_on [OF on]
    by (simp add: o)
qed

lemma dead_time_when_mark_unset:
  assumes "decides inp s" and "\<not> is_compressor_on s" and "exceeded_max_runtime_at s = 0"
    and "compressor_turned_off_at s \<noteq> 0"
    and "at_dead_time rd - compressor_turned_off_at s < dead_time_ms s"
    and "commanded_on_reads rd inp s" and "\<not> sees_overheat inp s"
  shows "\<exists>s'. update_state_reads layout rd inp s = Running s'
           \<and> \<not> actual_compressor_state (current_state s')
           \<and> status (current_state s') = dead_time"
proof -
  let ?b = "base_decision_reads rd (read_sensors inp s)"
  have on: "target_compressor_state (current_state ?b)"
    using assms(6) by (simp add: commanded_on_reads_def)
  have e: "has_compressor_exceeded_max_runtime_reads rd ?b = (False, ?b\<lparr>exceeded_max_runtime_at := 0\<rparr>)"
    using assms(2,3)
    by (simp add: has_compressor_exceeded_max_runtime_reads_def is_compressor_on_def)
  have d: "\<not> has_dead_time_elapsed (at_dead_time rd) (?b\<lparr>exceeded_max_runtime_at := 0\<rparr>)"
    using assms(4,5) by (simp add: has_dead_time_elapsed_def dead_time_ms_def not_le)
  have o: "overrides_reads rd ?b = (True, set_status dead_time (?b\<lparr>exceeded_max_runtime_at := 0\<rparr>))"
    using on assms(2,7) e d
    by (simp add: overrides_reads_def sees_overheat_def is_compressor_overheating_def
        is_compressor_on_def)
  show ?thesis
    using update_state_reads_decided [OF assms(1), of layout rd] assms(2)
    by (simp add: o set_status_def set_compressor_def is_compressor_on_def)
qed

lemma trip_writes_both_reads:
  assumes "decides inp s" and "is_compressor_on s" and "exceeded_max_runtime_at s = 0"
    and "at_run_time rd - compressor_turned_on_at s \<ge> max_run_time_ms s"
    and "commanded_on_reads rd inp s" and "\<not> sees_overheat inp s"
  shows "\<exists>s1. update_state_reads layout rd inp s = Running s1
           \<and> status (current_state s1) = compressor_max_runtime
           \<and> \<not> actual_compressor_state (current_state s1)
           \<and> exceeded_max_runtime_at s1 = at_mark rd
           \<and> compressor_turned_off_at s1 = at_set_compressor rd
           \<and> active_config s1 = active_config s"
proof -
  let ?b = "base_decision_reads rd (read_sensors inp s)"
  have on: "target_compressor_state (current_state ?b)"
    using assms(5) by (simp add: commanded_on_reads_def)
  have "has_compressor_exceeded_max_runtime_reads rd ?b
      = (True, ?b\<lparr>exceeded_max_runtime_at := at_mark rd\<rparr>)"
    using assms(2,3,4)
    by (simp add: has_compressor_exceeded_max_runtime_reads_def is_compressor_on_def
        max_run_time_ms_def)
  then have o: "overrides_reads rd ?b
      = (True, set_status compressor_max_runtime (?b\<lparr>exceeded_max_runtime_at := at_mark rd\<rparr>))"
    using on assms(6)
    by (simp add: overrides_reads_def sees_overheat_def is_compressor_overheating_def)
  show ?thesis
    using update_state_reads_decided [OF assms(1), of layout rd] assms(2)
    by (simp add: o set_status_def set_compressor_def is_compressor_on_def)
qed

lemma state_updated_at_apart [simp]:
  "decides inp (s\<lparr>state_updated_at := t\<rparr>) \<longleftrightarrow> decides inp s"
  "commanded_on_reads rd inp (s\<lparr>state_updated_at := t\<rparr>) \<longleftrightarrow> commanded_on_reads rd inp s"
  "sees_overheat inp (s\<lparr>state_updated_at := t\<rparr>) \<longleftrightarrow> sees_overheat inp s"
  "is_compressor_on (s\<lparr>state_updated_at := t\<rparr>) \<longleftrightarrow> is_compressor_on s"
  "dead_time_ms (s\<lparr>state_updated_at := t\<rparr>) = dead_time_ms s"
  by (simp_all add: decides_def validate_temperatures_def halt_def read_sensors_def
      commanded_on_reads_def base_decision_reads_def is_within_target_temperature_def
      has_hysteresis_time_elapsed_def sees_overheat_def is_compressor_overheating_def
      is_compressor_on_def dead_time_ms_def Let_def)

lemma wrap_facts:
  "decides (pass 0 (- 10) 30) late_start"
  "is_compressor_on late_start"
  "exceeded_max_runtime_at late_start = 0"
  "at_run_time (one_reading 0) - compressor_turned_on_at late_start \<ge> max_run_time_ms late_start"
  "commanded_on_reads (one_reading 0) (pass 0 (- 10) 30) late_start"
  "\<not> sees_overheat (pass 0 (- 10) 30) late_start"
  "dead_time_ms late_start = 300000"
  by (simp_all add: late_start_eq model_defs commanded_on_reads_def reads_agree)

lemma wrap_tick:
  "update_state_reads plain_layout (one_reading 0) (pass 0 (- 10) 30) late_start
     = Running (wrapped\<lparr>state_updated_at := 4276967296\<rparr>)"
  "decides (pass 1000 (- 10) 30) wrapped"
  "commanded_on_reads (one_reading 1000) (pass 1000 (- 10) 30) wrapped"
  "\<not> sees_overheat (pass 1000 (- 10) 30) wrapped"
  "state_updated_at wrapped = 0"
  using update_state_one_reading [of plain_layout "pass 0 (- 10) 30" late_start]
  by (simp_all add: late_start_eq wrapped_eq model_defs commanded_on_reads_def reads_agree)

lemma step_facts:
  "at_run_time stepping - compressor_turned_on_at late_start \<ge> max_run_time_ms late_start"
  "commanded_on_reads stepping (pass 0 (- 10) 30) late_start"
  "at_mark stepping = 0" "at_set_compressor stepping = 1"
  by (simp_all add: stepping_def late_start_eq model_defs commanded_on_reads_def
      base_decision_reads_def)

lemma step_tick:
  "update_state_reads plain_layout stepping (pass 0 (- 10) 30) late_start
     = Running (wrapped\<lparr>compressor_turned_off_at := 1, state_updated_at := 4276967296\<rparr>)"
  "decides (pass 1000 (- 10) 30) (wrapped\<lparr>compressor_turned_off_at := 1\<rparr>)"
  "commanded_on_reads (one_reading 1000) (pass 1000 (- 10) 30)
     (wrapped\<lparr>compressor_turned_off_at := 1\<rparr>)"
  "\<not> sees_overheat (pass 1000 (- 10) 30) (wrapped\<lparr>compressor_turned_off_at := 1\<rparr>)"
  "at_dead_time (one_reading 1000) - 1 < dead_time_ms late_start"
  by (simp_all add: stepping_def late_start_eq wrapped_eq model_defs commanded_on_reads_def
      reads_agree update_state_reads_def base_decision_reads_def overrides_reads_def
      has_compressor_exceeded_max_runtime_reads_def)

text \<open>
  C4 at the failing input. Take a tick that reaches the decision with the compressor on
  for at least the configured max run time, that commands on and sees no overheat (while
  the compressor is on no max-runtime mark is set: \<open>update_state_reads_marks_clear\<close>).
  The status becomes MaxRuntime and the compressor is switched off in that tick, as
  claimed; the max-runtime mark is what \<^verbatim>\<open>millis()\<close> returns at line 573 and the off
  timestamp what it returns at line 742. Both fields use 0 for "not set", and the counter
  reads 0 when it wraps, \<open>2 ^ 32\<close> ms after power-on. If the off timestamp is 0, the next
  tick that commands on without overheat (\<^verbatim>\<open>loop\<close> has recorded the time of the update
  in between) switches the compressor on again with status Cooling, whatever dead time is
  configured and however short the time since the stop: the cool-down that the mark is
  kept for is lost. If only the mark is 0, the compressor is held off for the dead time
  but with status DeadTime, not MaxRuntime. When neither is 0 the override lasts the dead
  time (\<open>pending_override_lasts_dead_time\<close>).
\<close>

theorem max_runtime_trip_at_clock_zero_loses_cool_down:
  assumes "decides inp s" and "is_compressor_on s" and "exceeded_max_runtime_at s = 0"
    and "at_run_time rd - compressor_turned_on_at s \<ge> max_run_time_ms s"
    and "commanded_on_reads rd inp s" and "\<not> sees_overheat inp s"
  shows "\<exists>s1. update_state_reads layout rd inp s = Running s1
           \<and> status (current_state s1) = compressor_max_runtime
           \<and> \<not> actual_compressor_state (current_state s1)
           \<and> exceeded_max_runtime_at s1 = at_mark rd
           \<and> compressor_turned_off_at s1 = at_set_compressor rd
           \<and> (at_set_compressor rd = 0 \<longrightarrow>
                (\<forall>t rd' inp'. decides inp' s1 \<and> commanded_on_reads rd' inp' s1
                     \<and> \<not> sees_overheat inp' s1 \<longrightarrow>
                   (\<exists>s2. update_state_reads layout rd' inp' (s1\<lparr>state_updated_at := t\<rparr>)
                            = Running s2
                      \<and> actual_compressor_state (current_state s2)
                      \<and> status (current_state s2) = cooling)))
           \<and> (at_mark rd = 0 \<and> at_set_compressor rd \<noteq> 0 \<longrightarrow>
                (\<forall>t rd' inp'. decides inp' s1 \<and> commanded_on_reads rd' inp' s1
                     \<and> \<not> sees_overheat inp' s1
                     \<and> at_dead_time rd' - at_set_compressor rd < dead_time_ms s \<longrightarrow>
                   (\<exists>s2. update_state_reads layout rd' inp' (s1\<lparr>state_updated_at := t\<rparr>)
                            = Running s2
                      \<and> \<not> actual_compressor_state (current_state s2)
                      \<and> status (current_state s2) = dead_time)))"
proof -
  from trip_writes_both_reads [OF assms, of layout]
  obtain s1 where s1: "update_state_reads layout rd inp s = Running s1"
    "status (current_state s1) = compressor_max_runtime"
    "\<not> actual_compressor_state (current_state s1)"
    "exceeded_max_runtime_at s1 = at_mark rd"
    "compressor_turned_off_at s1 = at_set_compressor rd"
    "active_config s1 = active_config s"
    by blast
  have off: "\<not> is_compressor_on (s1\<lparr>state_updated_at := t\<rparr>)" for t
    using s1(3) by (simp add: is_compressor_on_def)
  have dt: "dead_time_ms s1 = dead_time_ms s" using s1(6) by (simp add: dead_time_ms_def)
  have a: "\<exists>s2. update_state_reads layout rd' inp' (s1\<lparr>state_updated_at := t\<rparr>) = Running s2
                      \<and> actual_compressor_state (current_state s2)
                      \<and> status (current_state s2) = cooling"
    if "at_set_compressor rd = 0" "decides inp' s1" "commanded_on_reads rd' inp' s1"
      "\<not> sees_overheat inp' s1" for t rd' inp'
    using restart_when_off_unset [of inp' "s1\<lparr>state_updated_at := t\<rparr>" rd' layout]
      off [of t] s1(5) that by simp
  have b: "\<exists>s2. update_state_reads layout rd' inp' (s1\<lparr>state_updated_at := t\<rparr>) = Running s2
                      \<and> \<not> actual_compressor_state (current_state s2)
                      \<and> status (current_state s2) = dead_time"
    if "at_mark rd = 0" "at_set_compressor rd \<noteq> 0" "decides inp' s1"
      "commanded_on_reads rd' inp' s1" "\<not> sees_overheat inp' s1"
      "at_dead_time rd' - at_set_compressor rd < dead_time_ms s" for t rd' inp'
    using dead_time_when_mark_unset [of inp' "s1\<lparr>state_updated_at := t\<rparr>" rd' layout]
      off [of t] s1(4,5) that dt by simp
  show ?thesis
    using s1(1-5) a b by blast
qed

theorem max_runtime_trip_at_clock_zero_loses_cool_down_witness:
  "decides (pass 0 (- 10) 30) late_start \<and> is_compressor_on late_start
   \<and> at_run_time (one_reading 0) - compressor_turned_on_at late_start \<ge> max_run_time_ms late_start
   \<and> dead_time_ms late_start = 300000
   \<and> (\<exists>s1 s2. update_state_reads plain_layout (one_reading 0) (pass 0 (- 10) 30) late_start = Running s1
         \<and> status (current_state s1) = compressor_max_runtime
         \<and> \<not> actual_compressor_state (current_state s1)
         \<and> compressor_turned_off_at s1 = 0
         \<and> s1\<lparr>state_updated_at := 0\<rparr> = wrapped
         \<and> update_state_reads plain_layout (one_reading 1000) (pass 1000 (- 10) 30) wrapped = Running s2
         \<and> actual_compressor_state (current_state s2)
         \<and> status (current_state s2) = cooling)
   \<and> (\<exists>s1 s2. update_state_reads plain_layout stepping (pass 0 (- 10) 30) late_start = Running s1
         \<and> status (current_state s1) = compressor_max_runtime
         \<and> exceeded_max_runtime_at s1 = 0 \<and> compressor_turned_off_at s1 = 1
         \<and> update_state_reads plain_layout (one_reading 1000) (pass 1000 (- 10) 30)
              (s1\<lparr>state_updated_at := 1\<rparr>) = Running s2
         \<and> \<not> actual_compressor_state (current_state s2)
         \<and> status (current_state s2) = dead_time)"
proof -
  from max_runtime_trip_at_clock_zero_loses_cool_down [OF wrap_facts(1-6), of plain_layout]
  obtain s1 where s1: "update_state_reads plain_layout (one_reading 0) (pass 0 (- 10) 30) late_start = Running s1"
    "status (current_state s1) = compressor_max_runtime"
    "\<not> actual_compressor_state (current_state s1)"
    "compressor_turned_off_at s1 = at_set_compressor (one_reading 0)"
    and next_tick: "\<And>t rd' inp'. at_set_compressor (one_reading 0) = 0 \<Longrightarrow> decides inp' s1 \<Longrightarrow>
        commanded_on_reads rd' inp' s1 \<Longrightarrow> \<not> sees_overheat inp' s1 \<Longrightarrow>
        \<exists>s2. update_state_reads plain_layout rd' inp' (s1\<lparr>state_updated_at := t\<rparr>) = Running s2
           \<and> actual_compressor_state (current_state s2) \<and> status (current_state s2) = cooling"
    by blast
  have w: "s1 = wrapped\<lparr>state_updated_at := 4276967296\<rparr>" using s1(1) wrap_tick(1) by simp
  have w0: "s1\<lparr>state_updated_at := 0\<rparr> = wrapped"
    using wrap_tick(5) by (simp add: w)
  have d: "decides (pass 1000 (- 10) 30) s1"
    "commanded_on_reads (one_reading 1000) (pass 1000 (- 10) 30) s1"
    "\<not> sees_overheat (pass 1000 (- 10) 30) s1"
    using wrap_tick(2-4) by (simp_all add: w)
  have z: "at_set_compressor (one_reading 0) = 0" by simp
  from next_tick [OF z d, of 0]
  have "\<exists>s2. update_state_reads plain_layout (one_reading 1000) (pass 1000 (- 10) 30) wrapped = Running s2
           \<and> actual_compressor_state (current_state s2) \<and> status (current_state s2) = cooling"
    by (simp only: w0)
  then have a: "\<exists>s1 s2. update_state_reads plain_layout (one_reading 0) (pass 0 (- 10) 30) late_start = Running s1
         \<and> status (current_state s1) = compressor_max_runtime
         \<and> \<not> actual_compressor_state (current_state s1)
         \<and> compressor_turned_off_at s1 = 0
         \<and> s1\<lparr>state_updated_at := 0\<rparr> = wrapped
         \<and> update_state_reads plain_layout (one_reading 1000) (pass 1000 (- 10) 30) wrapped = Running s2
         \<and> actual_compressor_state (current_state s2)
         \<and> status (current_state s2) = cooling"
    using s1 w0 by auto
  from max_runtime_trip_at_clock_zero_loses_cool_down
         [OF wrap_facts(1-3) step_facts(1,2) wrap_facts(6), of plain_layout]
  obtain t1 where t1: "update_state_reads plain_layout stepping (pass 0 (- 10) 30) late_start = Running t1"
    "status (current_state t1) = compressor_max_runtime"
    "exceeded_max_runtime_at t1 = at_mark stepping"
    "compressor_turned_off_at t1 = at_set_compressor stepping"
    and held: "\<And>t rd' inp'. at_mark stepping = 0 \<Longrightarrow> at_set_compressor stepping \<noteq> 0 \<Longrightarrow>
        decides inp' t1 \<Longrightarrow> commanded_on_reads rd' inp' t1 \<Longrightarrow> \<not> sees_overheat inp' t1 \<Longrightarrow>
        at_dead_time rd' - at_set_compressor stepping < dead_time_ms late_start \<Longrightarrow>
        \<exists>s2. update_state_reads plain_layout rd' inp' (t1\<lparr>state_updated_at := t\<rparr>) = Running s2
           \<and> \<not> actual_compressor_state (current_state s2) \<and> status (current_state s2) = dead_time"
    by blast
  have v: "t1 = wrapped\<lparr>compressor_turned_off_at := 1, state_updated_at := 4276967296\<rparr>"
    using t1(1) step_tick(1) by simp
  have v': "t1 = (wrapped\<lparr>compressor_turned_off_at := 1\<rparr>)\<lparr>state_updated_at := 4276967296\<rparr>"
    by (simp add: v)
  have e: "decides (pass 1000 (- 10) 30) t1"
    "commanded_on_reads (one_reading 1000) (pass 1000 (- 10) 30) t1"
    "\<not> sees_overheat (pass 1000 (- 10) 30) t1"
    using step_tick(2-4) by (simp_all only: v' state_updated_at_apart simp_thms)
  have f: "at_dead_time (one_reading 1000) - at_set_compressor stepping < dead_time_ms late_start"
    using step_tick(5) by (simp add: step_facts(4))
  have n: "at_set_compressor stepping \<noteq> 0" by (simp add: step_facts(4))
  from held [OF step_facts(3) n e f, of 1]
  have "\<exists>s2. update_state_reads plain_layout (one_reading 1000) (pass 1000 (- 10) 30)
                (t1\<lparr>state_updated_at := 1\<rparr>) = Running s2
           \<and> \<not> actual_compressor_state (current_state s2) \<and> status (current_state s2) = dead_time" .
  then have b: "\<exists>s1 s2. update_state_reads plain_layout stepping (pass 0 (- 10) 30) late_start = Running s1
         \<and> status (current_state s1) = compressor_max_runtime
         \<and> exceeded_max_runtime_at s1 = 0 \<and> compressor_turned_off_at s1 = 1
         \<and> update_state_reads plain_layout (one_reading 1000) (pass 1000 (- 10) 30)
              (s1\<lparr>state_updated_at := 1\<rparr>) = Running s2
         \<and> \<not> actual_compressor_state (current_state s2)
         \<and> status (current_state s2) = dead_time"
    using t1 step_facts(3,4) by auto
  show ?thesis using a b wrap_facts by blast
qed

section \<open>Dead time\<close>

lemma sentinel_elapsed:
  "compressor_turned_off_at s = 0 \<Longrightarrow> has_dead_time_elapsed now s"
  by (simp add: has_dead_time_elapsed_def)

lemma base_decision_status:
  "status (current_state (base_decision now s)) \<in> {cooling, reached_target}"
  by (simp add: base_decision_def Let_def)

lemma overrides_no_dead_time:
  assumes "compressor_turned_off_at s = 0" and "status (current_state s) \<noteq> dead_time"
  shows "status (current_state (snd (overrides now s))) \<noteq> dead_time"
proof -
  have "has_dead_time_elapsed now (snd (has_compressor_exceeded_max_runtime now s))"
    using assms(1) by (simp add: has_dead_time_elapsed_def)
  then show ?thesis
    using assms(2) by (simp add: overrides_def set_status_def case_prod_beta)
qed


text \<open>
  C10. If the off timestamp is 0, the dead-time check answers that the dead time has
  elapsed, whatever the configuration and the clock, and a tick started in such a state
  does not end with status DeadTime. The timestamp is 0 at power-on and after every
  switch-on, and it leaves 0 only in a tick that switches the compressor from on to off.
  In every state reached from power-on in which the compressor is on, it is 0.
\<close>

theorem dead_time_needs_an_off_transition:
  assumes unset: "compressor_turned_off_at s = 0"
  shows "has_dead_time_elapsed now s
    \<and> (\<forall>s'. update_state layout inp s = Running s' \<longrightarrow> status (current_state s') \<noteq> dead_time)
    \<and> (compressor_turned_off_at (firmware_of (update_state layout inp s)) \<noteq> 0 \<longrightarrow>
          actual_compressor_state (current_state s)
          \<and> \<not> actual_compressor_state (current_state (firmware_of (update_state layout inp s))))
    \<and> compressor_turned_off_at (boot cfg logging c) = 0
    \<and> (\<forall>s0. \<not> actual_compressor_state (current_state s0) \<longrightarrow>
          compressor_turned_off_at (set_compressor now True s0) = 0)
    \<and> (\<forall>inps s'. run layout' inps (Running (boot cfg logging c)) = Running s' \<longrightarrow>
          actual_compressor_state (current_state s') \<longrightarrow> compressor_turned_off_at s' = 0)"
proof -
  let ?r = "read_sensors inp s"
  let ?b = "base_decision (millis inp) ?r"
  have a: "has_dead_time_elapsed now s" using unset by (rule sentinel_elapsed)
  have nd: "status (current_state (snd (overrides (millis inp) ?b))) \<noteq> dead_time"
    using overrides_no_dead_time [of ?b "millis inp"] base_decision_status [of "millis inp" ?r] unset
    by auto
  consider (halt) error where "validate_temperatures (millis inp) ?r
           = Halted error ((set_compressor (millis inp) False ?r)\<lparr>RED_LED_PIN := True\<rparr>)"
    | (gate) "validate_temperatures (millis inp) ?r = Running ?r" "\<not> startup_delay_over s"
    | (decide) "decides inp s"
    using validate_cases [of "millis inp" ?r] by (auto simp add: decides_def)
  then have bc: "(\<forall>s'. update_state layout inp s = Running s' \<longrightarrow> status (current_state s') \<noteq> dead_time)
    \<and> (compressor_turned_off_at (firmware_of (update_state layout inp s)) \<noteq> 0 \<longrightarrow>
          actual_compressor_state (current_state s)
          \<and> \<not> actual_compressor_state (current_state (firmware_of (update_state layout inp s))))"
  proof cases
    case halt
    from update_state_halts [OF halt, of layout] unset show ?thesis
      by (simp add: firmware_of_def set_compressor_off_at)
  next
    case gate
    from update_state_gated [OF gate, of layout] unset show ?thesis
      by (simp add: firmware_of_def set_status_def)
  next
    case decide
    from update_state_decided [OF decide, of layout] unset nd show ?thesis
      by (simp add: firmware_of_def set_compressor_off_at)
  qed
  have d: "compressor_turned_off_at (boot cfg logging c) = 0" by (simp add: boot_def)
  have e: "\<forall>s0. \<not> actual_compressor_state (current_state s0) \<longrightarrow>
          compressor_turned_off_at (set_compressor now True s0) = 0"
    by (simp add: set_compressor_off_at)
  have "marks_clear_while_on (boot cfg logging c)"
    by (simp add: marks_clear_while_on_def boot_def)
  then have f: "\<forall>inps s'. run layout' inps (Running (boot cfg logging c)) = Running s' \<longrightarrow>
          actual_compressor_state (current_state s') \<longrightarrow> compressor_turned_off_at s' = 0"
    using run_marks_clear [of "boot cfg logging c" layout'] by (auto simp add: marks_clear_while_on_def)
  show ?thesis using a bc d e f by blast
qed



theorem dead_time_needs_an_off_transition_witness:
  "compressor_turned_off_at gate_passed = 0
   \<and> has_dead_time_elapsed 121000 gate_passed
   \<and> update_state plain_layout (pass 121000 (- 10) 30) gate_passed
        = Running (just_started\<lparr>state_updated_at := 120000\<rparr>)
   \<and> status (current_state (just_started\<lparr>state_updated_at := 120000\<rparr>)) \<noteq> dead_time"
proof -
  have z: "compressor_turned_off_at gate_passed = 0"
    by (simp add: gate_passed_eq power_on_def boot_def)
  from dead_time_needs_an_off_transition
         [OF z, of 121000 plain_layout "pass 121000 (- 10) 30"] z tick_121000(1)
  show ?thesis by simp
qed

section \<open>Checksum\<close>

lemma crc8_constants: "(0x80 :: u8) = 2 ^ 7" "(0x07 :: u8) = mask 3"
  by (simp_all add: mask_eq_exp_minus_1)

lemma msb_test: "(c AND 2 ^ 7 \<noteq> 0) = bit (c::u8) 7"
  by (simp only: and_exp_eq_0_iff_not_bit) simp

lemma shift_bits:
  "bit (crc8_shift c) n \<longleftrightarrow> n < 8 \<and> ((0 < n \<and> bit c (n - 1)) \<noteq> (bit c 7 \<and> n < 3))"
proof -
  have p: "bit (push_bit 1 c) n \<longleftrightarrow> n < 8 \<and> 0 < n \<and> bit c (n - 1)"
    by (simp only: bit_push_bit_iff possible_bit_word) auto
  have m: "bit (mask 3 :: u8) n \<longleftrightarrow> n < 3"
    by (simp only: bit_mask_iff possible_bit_word) auto
  show ?thesis
  proof (cases "bit c 7")
    case True
    have "crc8_shift c = push_bit 1 c XOR mask 3"
      using True by (simp only: crc8_shift_def crc8_constants msb_test if_True)
    then show ?thesis using True by (simp only: bit_xor_iff p m) auto
  next
    case False
    have "crc8_shift c = push_bit 1 c"
      using False by (simp only: crc8_shift_def crc8_constants msb_test if_False)
    then show ?thesis using False by (simp only: p) auto
  qed
qed

lemma unshift_shift: "crc8_unshift (crc8_shift c) = c"
proof (rule bit_word_eqI)
  fix n assume "n < LENGTH(8)"
  then have n: "n < 8" by simp
  let ?r = "crc8_shift c"
  have b0: "bit ?r 0 = bit c 7" by (simp add: shift_bits)
  have n7: "n = 7 \<or> n < 7" using n by arith
  have m: "bit (mask 3 :: u8) k \<longleftrightarrow> k < 3" for k
    by (simp only: bit_mask_iff possible_bit_word) auto
  have e: "bit (2 ^ 7 :: u8) n \<longleftrightarrow> n = 7"
    by (simp only: bit_exp_iff possible_bit_word) auto
  have d: "bit (drop_bit 1 x) n = bit x (n + 1)" for x :: u8
    by (simp only: bit_drop_bit_eq) (simp add: add.commute)
  show "bit (crc8_unshift ?r) n = bit c n"
    unfolding crc8_unshift_def b0 crc8_constants
    using n n7
    by (simp only: bit_or_iff bit_xor_iff d m e shift_bits split: if_split) auto
qed

lemma crc8_shift_inj:
  assumes "crc8_shift a = crc8_shift b"
  shows "a = b"
proof -
  have "crc8_unshift (crc8_shift a) = crc8_unshift (crc8_shift b)" using assms by simp
  then show ?thesis by (simp only: unshift_shift)
qed

lemma crc8_bits_inj: "crc8_bits j a = crc8_bits j b \<Longrightarrow> a = b"
  by (induction j arbitrary: a b) (auto dest: crc8_shift_inj)

lemma xor_cancel_right:
  assumes "(a::u8) XOR b = c XOR b"
  shows "a = c"
proof -
  have "(a XOR b) XOR b = (c XOR b) XOR b" using assms by simp
  then show ?thesis by (simp add: xor.assoc)
qed

lemma xor_cancel_left:
  assumes "(a::u8) XOR b = a XOR c"
  shows "b = c"
proof -
  have "a XOR (a XOR b) = a XOR (a XOR c)" using assms by simp
  then show ?thesis by (simp add: xor.assoc [symmetric])
qed

lemma crc8_bytes_inj: "crc8_bytes a bs = crc8_bytes b bs \<Longrightarrow> a = b"
proof (induction bs arbitrary: a b)
  case Nil
  then show ?case by simp
next
  case (Cons x bs)
  from Cons.prems have "crc8_bits 8 (a XOR x) = crc8_bits 8 (b XOR x)"
    using Cons.IH by simp
  then have "a XOR x = b XOR x" by (rule crc8_bits_inj)
  then show ?case by (rule xor_cancel_right)
qed

lemma crc8_bytes_append: "crc8_bytes c (xs @ ys) = crc8_bytes (crc8_bytes c xs) ys"
  by (induction xs arbitrary: c) simp_all

lemma crc8_bytes_one_byte:
  assumes "b \<noteq> b'"
  shows "crc8_bytes c (xs @ b # ys) \<noteq> crc8_bytes c (xs @ b' # ys)"
proof
  assume "crc8_bytes c (xs @ b # ys) = crc8_bytes c (xs @ b' # ys)"
  then have "crc8_bits 8 (crc8_bytes c xs XOR b) = crc8_bits 8 (crc8_bytes c xs XOR b')"
    by (simp add: crc8_bytes_append) (rule crc8_bytes_inj)
  then have "crc8_bytes c xs XOR b = crc8_bytes c xs XOR b'" by (rule crc8_bits_inj)
  then have "b = b'" by (rule xor_cancel_left)
  then show False using assms by simp
qed


lemma crc8_shift_alt: "crc8_shift x = push_bit 1 x XOR (if bit x 7 then mask 3 else 0)"
  by (cases "bit x 7") (simp_all only: crc8_shift_def crc8_constants msb_test if_True if_False
      xor.right_neutral not_True_eq_False not_False_eq_True)

lemma crc8_feed_alt: "crc8_feed s m = push_bit 1 s XOR (if bit s 7 \<noteq> m then mask 3 else 0)"
  by (cases "bit s 7 \<noteq> m") (simp_all only: crc8_feed_def crc8_constants if_True if_False
      xor.right_neutral not_True_eq_False not_False_eq_True)

lemma shift_step:
  assumes "k < 8"
  shows "crc8_shift (s XOR push_bit k b) = crc8_feed s (bit b (7 - k)) XOR push_bit (Suc k) b"
proof -
  have t: "bit (s XOR push_bit k b) 7 \<longleftrightarrow> (bit s 7 \<noteq> bit b (7 - k))"
    using assms by (simp only: bit_xor_iff bit_push_bit_iff possible_bit_word) auto
  have p: "push_bit 1 (s XOR push_bit k b) = push_bit 1 s XOR push_bit (Suc k) b"
    by (simp only: push_bit_xor push_bit_push_bit) simp
  show ?thesis
    by (simp only: crc8_shift_alt crc8_feed_alt t p) (simp add: xor.assoc xor.commute xor.left_commute)
qed

lemma bits_of_byte:
  "j \<le> 8 \<Longrightarrow>
   crc8_bits j (s XOR push_bit (8 - j) b) = foldl crc8_feed s (map (bit b) (rev [0..<j]))"
proof (induction j arbitrary: s)
  case 0
  then show ?case by simp
next
  case (Suc j)
  then have j: "j < 8" "7 - j < 8" by simp_all
  have "crc8_bits (Suc j) (s XOR push_bit (8 - Suc j) b)
      = crc8_bits j (crc8_shift (s XOR push_bit (7 - j) b))" by simp
  also have "\<dots> = crc8_bits j (crc8_feed s (bit b (7 - (7 - j))) XOR push_bit (Suc (7 - j)) b)"
    by (simp only: shift_step [OF j(2)])
  also have "\<dots> = crc8_bits j (crc8_feed s (bit b j) XOR push_bit (8 - j) b)"
  proof -
    have "7 - (7 - j) = j" "Suc (7 - j) = 8 - j" using j by arith+
    then show ?thesis by (simp only:)
  qed
  also have "\<dots> = foldl crc8_feed (crc8_feed s (bit b j)) (map (bit b) (rev [0..<j]))"
    using Suc.IH [of "crc8_feed s (bit b j)"] j by simp
  finally show ?case by simp
qed

lemma byte_is_eight_bits:
  "crc8_bits 8 (c XOR b) = foldl crc8_feed c (map (bit b) (rev [0..<8]))"
  using bits_of_byte [of 8 c b] by simp

lemma crc8_bytes_standard:
  "crc8_bytes c data = foldl crc8_feed c (message_bits data)"
  by (induction data arbitrary: c) (simp_all add: message_bits_def byte_is_eight_bits del: upt_Suc)


text \<open>
  C9. \<^verbatim>\<open>calculate_crc8\<close> over a span is the standard CRC-8 of the bytes of the span
  (polynomial \<open>0x07\<close>, most significant bit first, initial value 0), and gives the check
  value \<open>0xF4\<close> of that CRC on the text \<^verbatim>\<open>123456789\<close>. Its result depends on the bytes
  of the span only, so recomputing it over the same bytes gives the same value. Flipping
  any single bit of any byte of the span changes the result. The length is a
  \<^verbatim>\<open>uint8_t\<close>, so a span has at most 255 bytes.
\<close>

theorem crc8_standard_and_single_bit_flips:
  "calculate_crc8 data len = crc8_standard (take (unat len) data)
   \<and> (take (unat len) data' = take (unat len) data \<longrightarrow>
        calculate_crc8 data' len = calculate_crc8 data len)
   \<and> (i < unat len \<and> i < length data \<and> k < 8 \<longrightarrow>
        calculate_crc8 (data[i := flip_bit k (data ! i)]) len \<noteq> calculate_crc8 data len)
   \<and> calculate_crc8 (map (of_nat \<circ> of_char) ''123456789'') 9 = 0xF4"
proof -
  have check: "calculate_crc8 (map (of_nat \<circ> of_char) ''123456789'') 9 = 0xF4"
    by code_simp
  have a: "calculate_crc8 data len = crc8_standard (take (unat len) data)"
    by (simp add: calculate_crc8_def crc8_standard_def crc8_bytes_standard)
  have b: "take (unat len) data' = take (unat len) data \<longrightarrow>
        calculate_crc8 data' len = calculate_crc8 data len"
    by (simp add: calculate_crc8_def)
  have c: "calculate_crc8 (data[i := flip_bit k (data ! i)]) len \<noteq> calculate_crc8 data len"
    if h: "i < unat len" "i < length data" "k < 8"
  proof -
    let ?xs = "take (unat len) data"
    have i: "i < length ?xs" using h by simp
    have n: "?xs ! i = data ! i" using h by simp
    have "bit (flip_bit k (data ! i)) k \<noteq> bit (data ! i) k"
      using h(3) by (simp add: bit_flip_bit_iff)
    then have d: "flip_bit k (data ! i) \<noteq> data ! i" by metis
    have "take (unat len) (data[i := flip_bit k (data ! i)]) = ?xs[i := flip_bit k (data ! i)]"
      by (rule take_update_swap)
    also have "\<dots> = take i ?xs @ flip_bit k (data ! i) # drop (Suc i) ?xs"
      using i by (rule upd_conv_take_nth_drop)
    finally have u: "take (unat len) (data[i := flip_bit k (data ! i)])
        = take i ?xs @ flip_bit k (data ! i) # drop (Suc i) ?xs" .
    have v: "?xs = take i ?xs @ data ! i # drop (Suc i) ?xs"
      using id_take_nth_drop [OF i] n by simp
    have "crc8_bytes 0 (take i ?xs @ flip_bit k (data ! i) # drop (Suc i) ?xs)
        \<noteq> crc8_bytes 0 (take i ?xs @ data ! i # drop (Suc i) ?xs)"
      by (rule crc8_bytes_one_byte [OF d])
    then show ?thesis
      unfolding calculate_crc8_def u using v by metis
  qed
  show ?thesis using a b c check by blast
qed

theorem crc8_standard_and_single_bit_flips_witness:
  "calculate_crc8 [5, 0, 0, 0, 9] 4 = calculate_crc8 [5, 0, 0, 0] 4
   \<and> calculate_crc8 [7, 0, 0, 0] 4 \<noteq> calculate_crc8 [5, 0, 0, 0] 4"
proof -
  note t = crc8_standard_and_single_bit_flips [of "[5, 0, 0, 0]" 4 "[5, 0, 0, 0, 9]" 0 1]
  have "calculate_crc8 [5, 0, 0, 0, 9] 4 = calculate_crc8 [5, 0, 0, 0] 4"
    using t [THEN conjunct2, THEN conjunct1] by simp
  moreover have "calculate_crc8 [7, 0, 0, 0] 4 \<noteq> calculate_crc8 [5, 0, 0, 0] 4"
    using t [THEN conjunct2, THEN conjunct2, THEN conjunct1] by (simp add: flip_bit_eq_xor)
  ultimately show ?thesis by simp
qed

section \<open>Record log\<close>

lemma card_read_accepting:
  "outcomes c = [] \<Longrightarrow>
   card_read block_addr n c = (True, map (blocks c block_addr) [0..<min n SD_BLOCK_SIZE], c)"
  by (simp add: card_read_def next_outcome_def)

lemma card_write_accepting:
  "outcomes c = [] \<Longrightarrow>
   card_write block_addr buffer n c
     = (True, c\<lparr>blocks := (blocks c)(block_addr := block_image buffer n)\<rparr>)"
  by (simp add: card_write_def next_outcome_def)

lemma min_sector [simp]: "min sizeof_sd_count_sector SD_BLOCK_SIZE = sizeof_sd_count_sector"
  by (simp add: sizeof_sd_count_sector_def SD_BLOCK_SIZE_def)

lemma save_data_point_accepting:
  assumes "outcomes c = []"
  shows "save_data_point data c =
     (True, c\<lparr>blocks :=
        ((if counts_differ c then (blocks c)(1 := sector_image (agreed_sector c)) else blocks c)
           (0 := sector_image (advanced_sector c),
            1 := sector_image (advanced_sector c),
            count (advanced_sector c) + 2 := block_image data (length data)))\<rparr>)"
  using assms
  by (simp add: save_data_point_def card_read_accepting card_write_accepting Let_def
      stored_sector_def [symmetric] counts_differ_def agreed_sector_def advanced_sector_def
      sector_image_def)

lemma le_bytes_roundtrip:
  "ucast (ucast n :: u8) OR push_bit 8 (ucast (ucast (drop_bit 8 n) :: u8))
     OR push_bit 16 (ucast (ucast (drop_bit 16 n) :: u8))
     OR push_bit 24 (ucast (ucast (drop_bit 24 n) :: u8)) = (n :: u32)"
proof (rule bit_word_eqI)
  fix k assume "k < LENGTH(32)"
  then consider "k < 8" | "8 \<le> k" "k < 16" | "16 \<le> k" "k < 24" | "24 \<le> k" "k < 32"
    by fastforce
  then show "bit (ucast (ucast n :: u8) OR push_bit 8 (ucast (ucast (drop_bit 8 n) :: u8))
     OR push_bit 16 (ucast (ucast (drop_bit 16 n) :: u8))
     OR push_bit 24 (ucast (ucast (drop_bit 24 n) :: u8)) :: u32) k = bit n k"
    by cases (auto simp add: bit_simps)
qed

lemma upt_5: "[0..<5] = [0, 1, 2, 3, 4]"
  by code_simp

lemma sector_roundtrip:
  "sector_of_bytes (map (sector_image x) [0..<sizeof_sd_count_sector]) = x"
  by (simp add: sector_image_def sizeof_sd_count_sector_def block_image_def sector_bytes_def
      le_bytes_def upt_5 le_bytes_roundtrip)


lemma count_crc_values:
  "count_crc 0 = 0" "count_crc 1 = 0x16" "count_crc 3 = 0x3A" "count_crc 5 = 0x4E" "count_crc 6 = 0x74"
  by code_simp+

lemma stored_sector_update:
  "stored_sector (c\<lparr>blocks := (blocks c)(a := sector_image x)\<rparr>) a = x"
  by (simp add: stored_sector_def sector_roundtrip)

lemma stored_scenario_e:
  "stored_sector scenario_e_card 0 = \<lparr> count = 5, crc = 0x4E \<rparr>"
  "stored_sector scenario_e_card 1 = \<lparr> count = 3, crc = 0xFF \<rparr>"
  "outcomes scenario_e_card = []"
  by (simp_all add: scenario_e_card_def stored_sector_def sector_roundtrip blank_card_def)

lemma stored_mirrored:
  "stored_sector mirrored_card 0 = \<lparr> count = 3, crc = 0xFF \<rparr>"
  "stored_sector mirrored_card 1 = \<lparr> count = 5, crc = 0x4E \<rparr>"
  "outcomes mirrored_card = []"
  by (simp_all add: mirrored_card_def stored_sector_def sector_roundtrip blank_card_def)

lemma card_read_sector:
  "card_read a sizeof_sd_count_sector c =
     (case outcomes c of
        [] \<Rightarrow> (True, map (blocks c a) [0..<sizeof_sd_count_sector], c)
      | ok # rest \<Rightarrow> (if ok then (True, map (blocks c a) [0..<sizeof_sd_count_sector], c\<lparr>outcomes := rest\<rparr>)
                     else (False, [], c\<lparr>outcomes := rest\<rparr>)))"
  by (simp add: card_read_def next_outcome_def split: list.splits)


lemma blank_sectors:
  "stored_sector blank_card a = \<lparr> count = 0, crc = 0 \<rparr>" "outcomes blank_card = []"
  by (simp_all add: stored_sector_def blank_card_def sizeof_sd_count_sector_def upt_5)

lemma advanced_blank: "advanced_sector blank_card = \<lparr> count = 1, crc = 0x16 \<rparr>"
  by (simp add: advanced_sector_def agreed_sector_def counts_differ_def blank_sectors count_crc_values)


text \<open>
  C7 at the failing input. On the card with count 3 and a wrong checksum in block 0 and
  count 5 with its right checksum in block 1, block 1 wins and block 0 is the losing
  block. When the card accepts the two reads and the repair write and refuses the next
  write, the append fails and the card is exactly as before: the repair write went to
  block 1, which already held the winner, and block 0 still holds count 3. On the card of
  Scenario E (the two blocks exchanged) the same run leaves block 1 repaired to count 5,
  and the complete append repairs block 1, writes count 6 to both blocks and the record
  to block 8.
\<close>

theorem heal_write_always_goes_to_block_1:
  "save_data_point data (mirrored_card\<lparr>outcomes := [True, True, True, False]\<rparr>)
     = (False, mirrored_card)
   \<and> save_data_point data (scenario_e_card\<lparr>outcomes := [True, True, True, False]\<rparr>)
     = (False, scenario_e_card\<lparr>blocks := (blocks scenario_e_card)
                                   (1 := sector_image \<lparr> count = 5, crc = 0x4E \<rparr>)\<rparr>)
   \<and> save_data_point data scenario_e_card
     = (True, scenario_e_card\<lparr>blocks := (blocks scenario_e_card)
                                  (1 := sector_image \<lparr> count = 5, crc = 0x4E \<rparr>,
                                   0 := sector_image \<lparr> count = 6, crc = 0x74 \<rparr>,
                                   1 := sector_image \<lparr> count = 6, crc = 0x74 \<rparr>,
                                   8 := block_image data (length data))\<rparr>)"
proof -
  have a: "save_data_point data (mirrored_card\<lparr>outcomes := [True, True, True, False]\<rparr>)
     = (False, mirrored_card
          \<lparr>blocks := (blocks mirrored_card)(1 := sector_image \<lparr> count = 5, crc = 0x4E \<rparr>),
           outcomes := []\<rparr>)"
    by (simp add: save_data_point_def card_read_sector card_write_def next_outcome_def Let_def
      stored_sector_def [symmetric] stored_mirrored count_crc_values
      sector_image_def [symmetric])
  have "mirrored_card
          \<lparr>blocks := (blocks mirrored_card)(1 := sector_image \<lparr> count = 5, crc = 0x4E \<rparr>),
           outcomes := []\<rparr> = mirrored_card"
    by (simp add: mirrored_card_def blank_card_def)
  with a have a': "save_data_point data (mirrored_card\<lparr>outcomes := [True, True, True, False]\<rparr>)
     = (False, mirrored_card)" by simp
  have b: "save_data_point data (scenario_e_card\<lparr>outcomes := [True, True, True, False]\<rparr>)
     = (False, scenario_e_card\<lparr>blocks := (blocks scenario_e_card)
                                   (1 := sector_image \<lparr> count = 5, crc = 0x4E \<rparr>)\<rparr>)"
    by (simp add: save_data_point_def card_read_sector card_write_def next_outcome_def Let_def
      stored_sector_def [symmetric] stored_scenario_e count_crc_values
      sector_image_def [symmetric])
  have c: "save_data_point data scenario_e_card
     = (True, scenario_e_card\<lparr>blocks := (blocks scenario_e_card)
                                  (1 := sector_image \<lparr> count = 5, crc = 0x4E \<rparr>,
                                   0 := sector_image \<lparr> count = 6, crc = 0x74 \<rparr>,
                                   1 := sector_image \<lparr> count = 6, crc = 0x74 \<rparr>,
                                   8 := block_image data (length data))\<rparr>)"
    by (simp add: save_data_point_accepting [OF stored_scenario_e(3)] counts_differ_def
        agreed_sector_def advanced_sector_def stored_scenario_e count_crc_values)
  show ?thesis using a' b c by simp
qed


section \<open>Telemetry\<close>

lemma sd_card_frames [simp]:
  "sd_card (base_decision now s) = sd_card s"
  "logging_enabled (base_decision now s) = logging_enabled s"
  "sd_card (snd (has_compressor_exceeded_max_runtime now s)) = sd_card s"
  "logging_enabled (snd (has_compressor_exceeded_max_runtime now s)) = logging_enabled s"
  "sd_card (set_status st s) = sd_card s"
  "logging_enabled (set_status st s) = logging_enabled s"
  "logging_enabled (read_sensors inp s) = logging_enabled s"
  by (simp_all add: base_decision_def Let_def has_compressor_exceeded_max_runtime_def set_status_def
      read_sensors_def)

lemma sd_card_overrides [simp]:
  "sd_card (snd (overrides now s)) = sd_card s"
  "logging_enabled (snd (overrides now s)) = logging_enabled s"
  by (simp_all add: overrides_def case_prod_beta)

lemma update_state_logs_once:
  assumes "update_state layout inp s = Running s'"
  shows "\<exists>d. s' = log_state layout (millis inp) d
           \<and> sd_card d = sd_card s \<and> logging_enabled d = logging_enabled s"
proof -
  let ?r = "read_sensors inp s"
  have v: "validate_temperatures (millis inp) ?r = Running ?r"
    using assms validate_cases [of "millis inp" ?r] by (auto simp add: update_state_def)
  show ?thesis
  proof (cases "startup_delay_over s")
    case True
    then have "decides inp s" using v by (simp add: decides_def)
    from update_state_decided [OF this, of layout] assms show ?thesis
      by (intro exI [of _ "set_compressor (millis inp)
          (target_compressor_state (current_state (base_decision (millis inp) ?r))
            \<and> \<not> fst (overrides (millis inp) (base_decision (millis inp) ?r)))
          (snd (overrides (millis inp) (base_decision (millis inp) ?r)))"]) simp
  next
    case False
    from update_state_gated [OF v False, of layout] assms show ?thesis
      by (intro exI [of _ "set_status startup_delay
          (?r\<lparr>startup_delay_over := is_startup_delay_over (millis inp) ?r\<rparr>)"]) simp
  qed
qed

lemma update_state_halt_card:
  assumes "update_state layout inp s = Halted error h"
  shows "sd_card h = sd_card s"
proof -
  let ?r = "read_sensors inp s"
  have "validate_temperatures (millis inp) ?r = Halted error h"
    using assms
    by (simp add: update_state_def Let_def case_prod_beta split: system.splits if_splits)
  then have "h = (set_compressor (millis inp) False ?r)\<lparr>RED_LED_PIN := True\<rparr>"
    by (simp add: validate_temperatures_def halt_def split: if_splits)
  then show ?thesis by simp
qed

lemma appended_blocks:
  assumes "outcomes c = []" and "c' = snd (save_data_point data c)"
  shows "blocks c' (count (advanced_sector c) + 2) = block_image data (length data)"
    and "\<forall>a. a \<notin> {0, 1, count (advanced_sector c) + 2} \<longrightarrow> blocks c' a = blocks c a"
    and "count (advanced_sector c) + 2 \<notin> {0, 1} \<longrightarrow>
           stored_sector c' 0 = advanced_sector c \<and> stored_sector c' 1 = advanced_sector c"
  unfolding assms(2)
  by (simp_all add: save_data_point_accepting [OF assms(1)] stored_sector_def sector_roundtrip)


text \<open>
  C6, as the code has it. A tick that passes sensor validation, held by the startup gate
  or not, ends with one call of \<^verbatim>\<open>log_state\<close> on the state its decision leaves. With
  logging disabled the card is not touched. With logging enabled the card is what one
  \<^verbatim>\<open>save_data_point\<close> makes of it, given the record built from the clock reading,
  the active configuration and the state after the decision, with its checksum. When the
  card accepts every transaction, that is exactly one record more: the record is in block
  (new count + 2), the address taken modulo \<open>2 ^ 32\<close>; every block other than that one and
  blocks 0 and 1 is unchanged; and, provided the record's block is not block 0 or 1 (the
  new count is neither \<open>0xFFFFFFFE\<close> nor \<open>0xFFFFFFFF\<close>), both metadata blocks hold
  the new count with its checksum. A tick that halts leaves the card as it was, and the
  halted system is left unchanged by every later pass.
\<close>

theorem every_completed_tick_logs_once:
  "case update_state layout inp s of
     Halted error h \<Rightarrow>
       sd_card h = sd_card s \<and> (\<forall>inps. run layout inps (Halted error h) = Halted error h)
   | Running s' \<Rightarrow>
       (\<exists>d. s' = log_state layout (millis inp) d
            \<and> sd_card d = sd_card s \<and> logging_enabled d = logging_enabled s)
     \<and> (let data_point = \<lparr> start_magic_bytes = ''FZZX'', ms_since_startup = millis inp,
                             config = active_config s', state = current_state s', crc_dp = 0 \<rparr>;
            record_bytes = layout (data_point
              \<lparr>crc_dp := calculate_crc8 (layout data_point) (of_nat (length (layout data_point)))\<rparr>);
            n = count (advanced_sector (sd_card s))
        in (if logging_enabled s
            then sd_card s' = snd (save_data_point record_bytes (sd_card s))
            else sd_card s' = sd_card s)
         \<and> (logging_enabled s \<and> outcomes (sd_card s) = [] \<longrightarrow>
               blocks (sd_card s') (n + 2) = block_image record_bytes (length record_bytes)
             \<and> (\<forall>a. a \<notin> {0, 1, n + 2} \<longrightarrow> blocks (sd_card s') a = blocks (sd_card s) a)
             \<and> (n + 2 \<notin> {0, 1} \<longrightarrow>
                  stored_sector (sd_card s') 0 = advanced_sector (sd_card s)
                  \<and> stored_sector (sd_card s') 1 = advanced_sector (sd_card s))))"
proof (cases "update_state layout inp s")
  case (Halted error h)
  then show ?thesis using update_state_halt_card [OF Halted] by (simp add: run_Halted)
next
  case (Running s')
  from update_state_logs_once [OF Running]
  obtain d where d: "s' = log_state layout (millis inp) d" "sd_card d = sd_card s"
    "logging_enabled d = logging_enabled s" by blast
  let ?dp = "\<lparr> start_magic_bytes = ''FZZX'', ms_since_startup = millis inp,
                config = active_config s', state = current_state s', crc_dp = 0 \<rparr>"
  let ?bytes = "layout (?dp\<lparr>crc_dp := calculate_crc8 (layout ?dp) (of_nat (length (layout ?dp)))\<rparr>)"
  have k: "active_config s' = active_config d" "current_state s' = current_state d"
    by (simp_all add: d(1))
  have c: "if logging_enabled s
           then sd_card s' = snd (save_data_point ?bytes (sd_card s))
           else sd_card s' = sd_card s"
    unfolding k using d(2,3) by (simp add: d(1) log_state_def Let_def case_prod_beta)
  have l: "\<exists>d. s' = log_state layout (millis inp) d
            \<and> sd_card d = sd_card s \<and> logging_enabled d = logging_enabled s"
    using d by blast
  have "(if logging_enabled s
         then sd_card s' = snd (save_data_point ?bytes (sd_card s))
         else sd_card s' = sd_card s)
      \<and> (logging_enabled s \<and> outcomes (sd_card s) = [] \<longrightarrow>
            blocks (sd_card s') (count (advanced_sector (sd_card s)) + 2)
              = block_image ?bytes (length ?bytes)
          \<and> (\<forall>a. a \<notin> {0, 1, count (advanced_sector (sd_card s)) + 2} \<longrightarrow>
                 blocks (sd_card s') a = blocks (sd_card s) a)
          \<and> (count (advanced_sector (sd_card s)) + 2 \<notin> {0, 1} \<longrightarrow>
               stored_sector (sd_card s') 0 = advanced_sector (sd_card s)
               \<and> stored_sector (sd_card s') 1 = advanced_sector (sd_card s)))"
    using c appended_blocks [of "sd_card s" "sd_card s'" ?bytes] by simp
  then show ?thesis
    using Running l by (simp only: system.case Let_def)
qed


lemma recording_gated:
  "update_state plain_layout (pass 1000 (- 10) 30) recording =
     Running (log_state plain_layout 1000
       (set_status startup_delay
          ((read_sensors (pass 1000 (- 10) 30) recording)
             \<lparr>startup_delay_over := is_startup_delay_over 1000 (read_sensors (pass 1000 (- 10) 30) recording)\<rparr>)))"
  "logging_enabled recording" "sd_card recording = blank_card"
proof -
  have v: "validate_temperatures (millis (pass 1000 (- 10) 30)) (read_sensors (pass 1000 (- 10) 30) recording)
      = Running (read_sensors (pass 1000 (- 10) 30) recording)"
    by (simp add: validate_temperatures_def read_sensors_def)
  have g: "\<not> startup_delay_over recording" by (simp add: recording_def boot_def)
  from update_state_gated [OF v g, of plain_layout]
  show "update_state plain_layout (pass 1000 (- 10) 30) recording =
     Running (log_state plain_layout 1000
       (set_status startup_delay
          ((read_sensors (pass 1000 (- 10) 30) recording)
             \<lparr>startup_delay_over := is_startup_delay_over 1000 (read_sensors (pass 1000 (- 10) 30) recording)\<rparr>)))"
    by simp
  show "logging_enabled recording" "sd_card recording = blank_card"
    by (simp_all add: recording_def boot_def)
qed

theorem every_completed_tick_logs_once_witness:
  "logging_enabled recording \<and> outcomes (sd_card recording) = []
   \<and> (\<exists>s'. update_state plain_layout (pass 1000 (- 10) 30) recording = Running s'
         \<and> status (current_state s') = startup_delay
         \<and> stored_sector (sd_card s') 0 = \<lparr> count = 1, crc = 0x16 \<rparr>
         \<and> stored_sector (sd_card s') 1 = \<lparr> count = 1, crc = 0x16 \<rparr>
         \<and> blocks (sd_card s') 3 0 = 0x46
         \<and> (\<forall>a. a \<notin> {0, 1, 3} \<longrightarrow> blocks (sd_card s') a = blocks blank_card a))"
proof -
  obtain s' where s': "update_state plain_layout (pass 1000 (- 10) 30) recording = Running s'"
    using recording_gated(1) by blast
  have st: "status (current_state s') = startup_delay"
    using s' recording_gated(1) by (auto simp add: set_status_def)
  note t = every_completed_tick_logs_once [where layout = plain_layout and inp = "pass 1000 (- 10) 30" and s = recording,
      unfolded s' system.case Let_def, THEN conjunct2, THEN conjunct2]
  from t have "stored_sector (sd_card s') 0 = \<lparr> count = 1, crc = 0x16 \<rparr>
         \<and> stored_sector (sd_card s') 1 = \<lparr> count = 1, crc = 0x16 \<rparr>
         \<and> blocks (sd_card s') 3 0 = 0x46
         \<and> (\<forall>a. a \<notin> {0, 1, 3} \<longrightarrow> blocks (sd_card s') a = blocks blank_card a)"
    by (simp add: s' recording_gated(2,3) blank_sectors advanced_blank Let_def
        plain_layout_def block_image_def)
  then show ?thesis using s' st recording_gated(2,3) blank_sectors(2) by auto
qed


text \<open>
  The claim as stated fails on the halt branch: with logging enabled and a blank,
  accepting card, a tick whose primary reading is 150 degrees halts and the card is
  unchanged, so no record was appended. It also fails whenever logging is disabled.
\<close>

theorem halting_tick_logs_nothing_counterexample:
  "logging_enabled recording \<and> outcomes (sd_card recording) = []
   \<and> update_state plain_layout (pass 1000 150 30) recording
       = Halted ''N1'' (recording
           \<lparr>current_state := (current_state recording)
              \<lparr>current_ntc1_temperature := 150, current_ntc2_temperature := 30\<rparr>,
            RED_LED_PIN := True\<rparr>)
   \<and> sd_card (firmware_of (update_state plain_layout (pass 1000 150 30) recording))
       = sd_card recording
   \<and> \<not> logging_enabled power_on
   \<and> sd_card (firmware_of (update_state plain_layout (pass 1000 (- 10) 30) power_on))
       = sd_card power_on"
  by (simp add: recording_def model_defs blank_card_def)

section \<open>Byte-level card driver\<close>

lemma transfer_stuck [simp]:
  "is_stuck_low e \<Longrightarrow> fst (SPI_transfer b e) = 0"
  "is_stuck_low e \<Longrightarrow> is_stuck_low (snd (SPI_transfer b e))"
  by (simp_all add: is_stuck_low_def SPI_transfer_def)

lemma transfer_all_stuck [simp]:
  "is_stuck_low e \<Longrightarrow> is_stuck_low (transfer_all bs e)"
  by (induction bs arbitrary: e) simp_all

lemma await_data_token_stuck:
  "is_stuck_low e \<Longrightarrow> await_data_token fuel e = None"
  by (induction fuel arbitrary: e) (simp_all add: case_prod_beta)

lemma await_card_ready_stuck:
  "is_stuck_low e \<Longrightarrow> await_card_ready fuel e = None"
  by (induction fuel arbitrary: e) (simp_all add: case_prod_beta)

lemma wait_loop_stuck:
  "is_stuck_low e \<Longrightarrow> wait_card_busy_loop fuel start e = Some (r, e') \<Longrightarrow> is_stuck_low e' \<and> \<not> r"
proof (induction fuel arbitrary: e)
  case 0
  then show ?case by simp
next
  case (Suc fuel)
  let ?e = "snd (SPI_transfer 0xFF e)"
  have s: "is_stuck_low ?e" "fst (SPI_transfer 0xFF e) = 0" using Suc.prems(1) by simp_all
  show ?case
  proof (cases "bus_millis ?e - start > 300")
    case True
    then show ?thesis using Suc.prems(2) s by (simp add: case_prod_beta)
  next
    case False
    then have "wait_card_busy_loop fuel start ?e = Some (r, e')"
      using Suc.prems(2) s by (simp add: case_prod_beta)
    then show ?thesis using Suc.IH [OF s(1)] by simp
  qed
qed

lemma read_response_loop_stuck:
  "is_stuck_low e \<Longrightarrow>
   read_card_response_loop (Suc n) e = (0, snd (SPI_transfer 0xFF e))"
  by (simp add: case_prod_beta)

lemma read_response_stuck:
  assumes "is_stuck_low e"
  shows "fst (read_card_response e) = 0 \<and> is_stuck_low (snd (read_card_response e))"
proof -
  have "read_card_response e = read_card_response_loop (Suc 9) e"
    by (simp only: read_card_response_def) simp
  then show ?thesis
    using assms by (simp only: read_response_loop_stuck [OF assms]) simp
qed

lemma millis_after:
  assumes "x \<le> 400000"
  shows "((of_nat (x div 1000) :: u32) - 0 > 300) = (x \<ge> 301000)"
proof -
  have b: "x div 1000 < 2 ^ 32" using assms by simp
  have "unat (of_nat (x div 1000) :: u32) = x div 1000"
    using b by (simp add: unat_of_nat take_bit_nat_eq_self)
  then have "((of_nat (x div 1000) :: u32) > 300) = (x div 1000 > 300)"
    by (simp add: word_less_nat_alt)
  also have "\<dots> = (x \<ge> 301000)" by arith
  finally show ?thesis by simp
qed

lemma stuck_wait:
  assumes "is_stuck_low e" "byte_time_us e = 32" "elapsed_us e = 32 * k" "k + m = 9407"
    "0 < m" "m \<le> fuel"
  shows "wait_card_busy_loop fuel 0 e
     = Some (False, e\<lparr>sent := sent e @ replicate m 0xFF, elapsed_us := 301024\<rparr>)"
  using assms
proof (induction m arbitrary: e k fuel)
  case 0
  then show ?case by simp
next
  case (Suc m)
  obtain f where f: "fuel = Suc f" using Suc.prems(6) by (cases fuel) simp_all
  let ?e = "snd (SPI_transfer 0xFF e)"
  have e1: "?e = e\<lparr>sent := sent e @ [0xFF], elapsed_us := 32 * (k + 1)\<rparr>"
    using Suc.prems(2,3) by (simp add: SPI_transfer_def)
  have s: "is_stuck_low ?e" "fst (SPI_transfer 0xFF e) = 0" using Suc.prems(1) by simp_all
  have le: "32 * (k + 1) \<le> 400000" using Suc.prems(4) by simp
  have t: "(bus_millis ?e - 0 > 300) = (32 * (k + 1) \<ge> 301000)"
    unfolding bus_millis_def e1 using millis_after [OF le] by simp
  show ?case
  proof (cases "m = 0")
    case True
    then have "32 * (k + 1) = 301024" using Suc.prems(4) by simp
    then show ?thesis
      using t s(2) True by (simp add: f case_prod_beta e1)
  next
    case False
    then have "\<not> 32 * (k + 1) \<ge> 301000" using Suc.prems(4) by simp
    then have "wait_card_busy_loop fuel 0 e = wait_card_busy_loop f 0 ?e"
      using t s(2) by (simp add: f case_prod_beta)
    also have "\<dots> = Some (False, ?e\<lparr>sent := sent ?e @ replicate m 0xFF, elapsed_us := 301024\<rparr>)"
    proof (rule Suc.IH [of ?e "k + 1"])
      show "is_stuck_low ?e" by (rule s(1))
      show "byte_time_us ?e = 32" using Suc.prems(2) by (simp add: e1)
      show "elapsed_us ?e = 32 * (k + 1)" by (simp add: e1)
      show "k + 1 + m = 9407" using Suc.prems(4) by simp
      show "0 < m" using False by simp
      show "m \<le> f" using Suc.prems(6) f by simp
    qed
    also have "?e\<lparr>sent := sent ?e @ replicate m 0xFF, elapsed_us := 301024\<rparr>
        = e\<lparr>sent := sent e @ replicate (Suc m) 0xFF, elapsed_us := 301024\<rparr>"
      by (simp add: e1 replicate_app_Cons_same)
    finally show ?thesis .
  qed
qed

lemma stuck_low_wait:
  assumes "9407 \<le> fuel"
  shows "wait_card_busy fuel stuck_low
     = Some (False, stuck_low\<lparr>sent := replicate 9407 0xFF, elapsed_us := 301024\<rparr>)"
proof -
  have "wait_card_busy_loop fuel 0 stuck_low
     = Some (False, stuck_low\<lparr>sent := sent stuck_low @ replicate 9407 0xFF, elapsed_us := 301024\<rparr>)"
    using assms by (intro stuck_wait [of stuck_low 0]) (simp_all add: stuck_low_def is_stuck_low_def)
  then show ?thesis by (simp add: wait_card_busy_def bus_millis_def stuck_low_def)
qed

lemma read_never_returns:
  assumes s: "is_stuck_low e"
  shows "read_card_block fuel block_addr buffer_size e = None"
proof (cases "send_card_command fuel 17 block_addr 0x01 e")
  case None
  then show ?thesis by (simp only: read_card_block_def option.case)
next
  case (Some e1)
  then obtain r e0 where w: "wait_card_busy_loop fuel (bus_millis e) e = Some (r, e0)"
    and e1: "e1 = transfer_all (command_frame 17 block_addr 0x01) e0"
    by (cases "wait_card_busy fuel e")
       (auto simp add: send_card_command_def wait_card_busy_def)
  have "is_stuck_low e0" using wait_loop_stuck [OF s w] by simp
  then have s1: "is_stuck_low e1" by (simp only: e1 transfer_all_stuck)
  obtain response e2 where p: "read_card_response e1 = (response, e2)"
    by (cases "read_card_response e1")
  have r: "response = 0" "is_stuck_low e2"
    using read_response_stuck [OF s1] by (simp_all only: p fst_conv snd_conv)
  have t: "await_data_token fuel e2 = None" by (rule await_data_token_stuck [OF r(2)])
  show ?thesis
    by (simp only: read_card_block_def Some option.case p prod.case Let_def r(1) t) simp
qed

lemma at_byte_transfer:
  assumes "at_byte n e"
  shows "fst (SPI_transfer b e) = reply_of_busy_card (Suc n)"
    and "at_byte (Suc n) (snd (SPI_transfer b e))"
  using assms by (simp_all add: at_byte_def SPI_transfer_def)

lemma at_byte_transfer_all:
  "at_byte n e \<Longrightarrow> at_byte (n + length bs) (transfer_all bs e)"
proof (induction bs arbitrary: n e)
  case Nil
  then show ?case by simp
next
  case (Cons b bs)
  from Cons.IH [OF at_byte_transfer(2) [OF Cons.prems]] show ?case by simp
qed

lemma read_card_response_loop_first:
  "fst (SPI_transfer 0xFF e) \<noteq> 0xFF \<Longrightarrow>
   read_card_response_loop (Suc n) e = SPI_transfer 0xFF e"
  by (simp add: case_prod_beta)

lemma read_card_response_first:
  assumes "fst (SPI_transfer 0xFF e) \<noteq> 0xFF"
  shows "read_card_response e = SPI_transfer 0xFF e"
proof -
  have "(10::nat) = Suc 9" by simp
  then show ?thesis
    using read_card_response_loop_first [OF assms, of 9]
    by (simp only: read_card_response_def)
qed

lemma at_byte_after:
  "at_byte n e \<Longrightarrow> n + length bs = m \<Longrightarrow> at_byte m (transfer_all bs e)"
  using at_byte_transfer_all by blast

lemma await_card_ready_never:
  "at_byte n e \<Longrightarrow> 524 \<le> n \<Longrightarrow> await_card_ready fuel e = None"
proof (induction fuel arbitrary: n e)
  case 0
  then show ?case by simp
next
  case (Suc fuel)
  have r: "fst (SPI_transfer 0xFF e) = 0"
    using at_byte_transfer(1) [OF Suc.prems(1)] Suc.prems(2)
    by (simp add: reply_of_busy_card_def)
  have "524 \<le> Suc n" using Suc.prems(2) by simp
  then have "await_card_ready fuel (snd (SPI_transfer 0xFF e)) = None"
    by (rule Suc.IH [OF at_byte_transfer(2) [OF Suc.prems(1)]])
  then show ?case using r by (simp add: case_prod_beta)
qed

lemma write_never_returns:
  "write_card_block fuel block_addr buffer buffer_size never_ready = None"
proof (cases fuel)
  case 0
  then show ?thesis
    by (simp add: write_card_block_def send_card_command_def wait_card_busy_def)
next
  case (Suc f)
  let ?frame = "command_frame 24 block_addr 0x01"
  have a0: "at_byte 0 never_ready" by (simp add: at_byte_def never_ready_def)
  let ?e1 = "snd (SPI_transfer 0xFF never_ready)"
  have a1: "at_byte 1 ?e1" "fst (SPI_transfer 0xFF never_ready) = 0xFF"
    using at_byte_transfer [OF a0] by (simp_all add: reply_of_busy_card_def)
  have w: "wait_card_busy fuel never_ready = Some (True, ?e1)"
    using a1(2) by (simp add: wait_card_busy_def Suc case_prod_beta)
  let ?e2 = "transfer_all ?frame ?e1"
  have c: "send_card_command fuel 24 block_addr 0x01 never_ready = Some ?e2"
    by (simp add: send_card_command_def w)
  have a2: "at_byte 7 ?e2"
    by (rule at_byte_after [OF a1(1)]) (simp add: command_frame_def)
  let ?e3 = "snd (SPI_transfer 0xFF ?e2)"
  have a3: "at_byte 8 ?e3" "fst (SPI_transfer 0xFF ?e2) = 0"
    using at_byte_transfer [OF a2] by (simp_all add: reply_of_busy_card_def)
  have "read_card_response ?e2 = SPI_transfer 0xFF ?e2"
    by (rule read_card_response_first) (simp add: a3(2))
  then have p: "read_card_response ?e2 = (0, ?e3)"
    using a3(2) by (simp only: prod_eq_iff fst_conv snd_conv)
  let ?e4 = "transfer_all [0xFE] ?e3"
  let ?e5 = "transfer_all (map (block_image buffer buffer_size) [0..<SD_BLOCK_SIZE]) ?e4"
  let ?e6 = "transfer_all [0xFF, 0xFF] ?e5"
  let ?e7 = "snd (SPI_transfer 0xFF ?e6)"
  have a4: "at_byte 9 ?e4" by (rule at_byte_after [OF a3(1)]) simp
  have a5: "at_byte 521 ?e5"
    by (rule at_byte_after [OF a4]) (simp add: SD_BLOCK_SIZE_def)
  have a6: "at_byte 523 ?e6" by (rule at_byte_after [OF a5]) simp
  have a7: "at_byte 524 ?e7" "fst (SPI_transfer 0xFF ?e6) = 0x05"
    using at_byte_transfer [OF a6] by (simp_all add: reply_of_busy_card_def)
  obtain response e where q: "SPI_transfer 0xFF ?e6 = (response, e)"
    by (cases "SPI_transfer 0xFF ?e6")
  have r: "response = 0x05" "e = ?e7" using a7(2) q by simp_all
  have n: "await_card_ready fuel e = None"
    using await_card_ready_never [OF a7(1)] r(2) by simp
  show ?thesis
    by (simp only: write_card_block_def c option.case p prod.case Let_def q r(1) n) simp
qed

lemma millis_difference:
  assumes "x \<le> 302000"
  shows "((of_nat ((t0 + x) div 1000) :: u32) - of_nat (t0 div 1000) > 300)
     = ((t0 + x) div 1000 - t0 div 1000 > 300)"
proof -
  let ?n = "(t0 + x) div 1000 - t0 div 1000"
  have le: "t0 div 1000 \<le> (t0 + x) div 1000" by (simp add: div_le_mono)
  have "(t0 + x) div 1000 \<le> t0 div 1000 + x div 1000 + 1" by arith
  then have b: "?n \<le> 303" using assms by arith
  have d: "(of_nat ((t0 + x) div 1000) :: u32) - of_nat (t0 div 1000) = of_nat ?n"
    using le by simp
  have u: "unat (of_nat k :: u32) = k" if "k \<le> 303" for k :: nat
    using that by (simp add: unat_of_nat take_bit_nat_eq_self)
  have "((of_nat ?n :: u32) > 300) = (?n > 300)"
    unfolding word_less_nat_alt u [OF b] by simp
  then show ?thesis by (simp only: d)
qed

lemma wait_card_busy_loop_returns:
  assumes "0 < byte_time_us e" "byte_time_us e \<le> 1000"
    and "elapsed_us e = t0 + x" "x < 301000"
    and "0 < fuel" "301000 \<le> x + fuel * byte_time_us e"
  shows "\<exists>r e'. wait_card_busy_loop fuel (of_nat (t0 div 1000)) e = Some (r, e')
           \<and> elapsed_us e' \<le> t0 + 302000"
  using assms
proof (induction fuel arbitrary: e x)
  case 0
  then show ?case by simp
next
  case (Suc fuel)
  let ?d = "byte_time_us e"
  let ?e = "snd (SPI_transfer 0xFF e)"
  have e1: "elapsed_us ?e = t0 + (x + ?d)" "byte_time_us ?e = ?d"
    using Suc.prems(3) by (simp_all add: SPI_transfer_def)
  have xb: "x + ?d \<le> 302000" using Suc.prems(2,4) by simp
  have t: "(bus_millis ?e - of_nat (t0 div 1000) > 300)
      = ((t0 + (x + ?d)) div 1000 - t0 div 1000 > 300)"
    unfolding bus_millis_def e1 by (rule millis_difference [OF xb])
  show ?case
  proof (cases "fst (SPI_transfer 0xFF e) = 0xFF")
    case True
    then have "wait_card_busy_loop (Suc fuel) (of_nat (t0 div 1000)) e = Some (True, ?e)"
      by (simp add: case_prod_beta)
    moreover have "elapsed_us ?e \<le> t0 + 302000" using e1 xb by simp
    ultimately show ?thesis by blast
  next
    case False
    show ?thesis
    proof (cases "(t0 + (x + ?d)) div 1000 - t0 div 1000 > 300")
      case True
      then have "wait_card_busy_loop (Suc fuel) (of_nat (t0 div 1000)) e = Some (False, ?e)"
        using False t by (simp add: case_prod_beta)
      moreover have "elapsed_us ?e \<le> t0 + 302000" using e1 xb by simp
      ultimately show ?thesis by blast
    next
      case late: False
      then have x': "x + ?d < 301000" by arith
      then have f: "0 < fuel" using Suc.prems(6) by (cases fuel) simp_all
      have "wait_card_busy_loop (Suc fuel) (of_nat (t0 div 1000)) e
          = wait_card_busy_loop fuel (of_nat (t0 div 1000)) ?e"
        using False late t by (simp add: case_prod_beta)
      moreover have "\<exists>r e'. wait_card_busy_loop fuel (of_nat (t0 div 1000)) ?e = Some (r, e')
           \<and> elapsed_us e' \<le> t0 + 302000"
      proof (rule Suc.IH [of ?e "x + ?d"])
        show "0 < byte_time_us ?e" "byte_time_us ?e \<le> 1000"
          using Suc.prems(1,2) e1(2) by simp_all
        show "elapsed_us ?e = t0 + (x + ?d)" by (rule e1(1))
        show "x + ?d < 301000" by (rule x')
        show "0 < fuel" by (rule f)
        show "301000 \<le> x + ?d + fuel * byte_time_us ?e"
          using Suc.prems(6) e1(2) by simp
      qed
      ultimately show ?thesis by simp
    qed
  qed
qed

lemma wait_card_busy_returns:
  assumes "0 < byte_time_us e" "byte_time_us e \<le> 1000"
  shows "\<exists>r e'. wait_card_busy 301000 e = Some (r, e')
           \<and> elapsed_us e' \<le> elapsed_us e + 302000"
proof -
  have "301000 \<le> 0 + 301000 * byte_time_us e" using assms(1) by simp
  from wait_card_busy_loop_returns [OF assms, of "elapsed_us e" 0 301000] this
  show ?thesis by (simp add: wait_card_busy_def bus_millis_def)
qed

lemma sent_transfer_all: "sent (transfer_all bs e) = sent e @ bs"
  by (induction bs arbitrary: e) (simp_all add: SPI_transfer_def)

lemma timed_out_stuck: "is_stuck_low timed_out"
  by (simp add: timed_out_def stuck_low_def is_stuck_low_def)

subsection \<open>A card that follows the protocol\<close>

text \<open>On a card that is idle, accepts the command, sends the start token at once and, for a
  write, accepts the data and is ready one poll later, both block transfers return with
  success after one pass of every polling loop. The read hands back the first
  \<open>buffer_size\<close> of the 512 data bytes, and the write puts on the wire the block image that
  \<open>card_write\<close> stores: the contract the record log relies on.\<close>

lemma follows_transfer:
  assumes "follows reply n e"
  shows "fst (SPI_transfer b e) = reply (Suc n)"
    and "follows reply (Suc n) (snd (SPI_transfer b e))"
    and "sent (snd (SPI_transfer b e)) = sent e @ [b]"
  using assms by (simp_all add: follows_def SPI_transfer_def)

lemma follows_transfer_all:
  "follows reply n e \<Longrightarrow> n + length bs = m \<Longrightarrow> follows reply m (transfer_all bs e)"
proof (induction bs arbitrary: n e)
  case Nil
  then show ?case by simp
next
  case (Cons b bs)
  have "follows reply (Suc n) (snd (SPI_transfer b e))"
    by (rule follows_transfer(2) [OF Cons.prems(1)])
  moreover have "Suc n + length bs = m" using Cons.prems(2) by simp
  ultimately show ?case using Cons.IH by simp
qed

lemma follows_receive:
  "follows reply n e \<Longrightarrow>
   fst (receive_bytes k e) = map reply [Suc n..<Suc n + k]
   \<and> follows reply (n + k) (snd (receive_bytes k e))
   \<and> sent (snd (receive_bytes k e)) = sent e @ replicate k 0xFF"
proof (induction k arbitrary: n e)
  case 0
  then show ?case by simp
next
  case (Suc k)
  let ?e = "snd (SPI_transfer 0xFF e)"
  note t = follows_transfer [where b = "0xFF", OF Suc.prems]
  note ih = Suc.IH [OF t(2)]
  have u: "map reply [Suc n..<Suc n + Suc k]
      = reply (Suc n) # map reply [Suc (Suc n)..<Suc (Suc n) + k]"
    by (simp add: upt_conv_Cons del: upt_Suc)
  have "fst (receive_bytes (Suc k) e) = reply (Suc n) # map reply [Suc (Suc n)..<Suc (Suc n) + k]"
    using t(1) ih by (simp add: case_prod_beta del: upt_Suc)
  then have a: "fst (receive_bytes (Suc k) e) = map reply [Suc n..<Suc n + Suc k]"
    by (simp only: u)
  have b: "follows reply (n + Suc k) (snd (receive_bytes (Suc k) e))"
    using ih by (simp add: case_prod_beta)
  have c: "sent (snd (receive_bytes (Suc k) e)) = sent e @ replicate (Suc k) 0xFF"
    using t(3) ih by (simp add: case_prod_beta replicate_app_Cons_same)
  show ?case using a b c by blast
qed

lemma read_card_block_on_protocol:
  assumes "follows reply 0 e"
    and "reply 1 = 0xFF" and "reply 8 = 0x00" and "reply 9 = 0xFE"
  shows "\<exists>e'. read_card_block (Suc fuel) block_addr buffer_size e
           = Some (True, take buffer_size (map reply [10..<522]), e')
         \<and> sent e' = [0xFF] @ command_frame 17 block_addr 0x01 @ replicate 517 0xFF"
proof -
  let ?frame = "command_frame 17 block_addr 0x01"
  let ?e1 = "snd (SPI_transfer 0xFF e)"
  note t1 = follows_transfer [where b = "0xFF", OF assms(1)]
  have s0: "sent e = []" using assms(1) by (simp add: follows_def)
  have w: "wait_card_busy (Suc fuel) e = Some (True, ?e1)"
    using t1(1) assms(2) by (simp add: wait_card_busy_def case_prod_beta)
  let ?e2 = "transfer_all ?frame ?e1"
  have c: "send_card_command (Suc fuel) 17 block_addr 0x01 e = Some ?e2"
    by (simp add: send_card_command_def w)
  have a2: "follows reply 7 ?e2"
    by (rule follows_transfer_all [OF t1(2)]) (simp add: command_frame_def)
  have s2: "sent ?e2 = [0xFF] @ ?frame" using t1(3) s0 by (simp add: sent_transfer_all)
  let ?e3 = "snd (SPI_transfer 0xFF ?e2)"
  note t3 = follows_transfer [where b = "0xFF", OF a2]
  have "read_card_response ?e2 = SPI_transfer 0xFF ?e2"
    by (rule read_card_response_first) (simp add: t3(1) assms(3))
  then have p: "read_card_response ?e2 = (0, ?e3)"
    using t3(1) assms(3) by (simp only: prod_eq_iff fst_conv snd_conv) simp
  let ?e4 = "snd (SPI_transfer 0xFF ?e3)"
  have a3: "follows reply 8 ?e3" using t3(2) by simp
  note t4 = follows_transfer [where b = "0xFF", OF a3]
  have k: "await_data_token (Suc fuel) ?e3 = Some ?e4"
    using t4(1) assms(4) by (simp add: case_prod_beta)
  have a4: "follows reply 9 ?e4" using t4(2) by simp
  obtain block e5 where r: "receive_bytes SD_BLOCK_SIZE ?e4 = (block, e5)"
    by (cases "receive_bytes SD_BLOCK_SIZE ?e4")
  have n: "[Suc 9..<Suc 9 + SD_BLOCK_SIZE] = [10..<522]" "9 + SD_BLOCK_SIZE = 521"
    by (simp_all add: SD_BLOCK_SIZE_def del: upt_rec_numeral)
  from follows_receive [OF a4, of SD_BLOCK_SIZE]
  have b: "block = map reply [10..<522]" and a5: "follows reply 521 e5"
    and s5: "sent e5 = sent ?e4 @ replicate 512 0xFF"
    unfolding r n fst_conv snd_conv by (simp_all only: SD_BLOCK_SIZE_def)
  let ?e' = "transfer_all [0xFF] (transfer_all [0xFF, 0xFF] e5)"
  have "read_card_block (Suc fuel) block_addr buffer_size e
      = Some (True, take buffer_size (map reply [10..<522]), ?e')"
    by (simp only: read_card_block_def c option.case p prod.case Let_def k r b) simp
  moreover have "sent ?e' = [0xFF] @ ?frame @ replicate 517 0xFF"
  proof -
    have "sent ?e4 = [0xFF] @ ?frame @ [0xFF, 0xFF]"
      using t4(3) t3(3) s2 by simp
    then have "sent ?e' = [0xFF] @ ?frame @ [0xFF, 0xFF] @ replicate 512 0xFF @ [0xFF, 0xFF, 0xFF]"
      by (simp only: sent_transfer_all s5) simp
    also have "[0xFF, 0xFF] @ replicate 512 0xFF @ [0xFF, 0xFF, 0xFF] = replicate 517 (0xFF :: u8)"
    proof -
      have "[0xFF, 0xFF] = replicate 2 (0xFF :: u8)" "[0xFF, 0xFF, 0xFF] = replicate 3 (0xFF :: u8)"
        by (simp_all add: eval_nat_numeral)
      then show ?thesis by (simp only: replicate_add [symmetric]) simp
    qed
    finally show ?thesis .
  qed
  ultimately show ?thesis by blast
qed


lemma write_card_block_on_protocol:
  assumes "follows reply 0 e"
    and "reply 1 = 0xFF" and "reply 8 = 0x00" and "reply 524 AND 0x1F = 0x05"
    and "reply 525 \<noteq> 0x00"
  shows "\<exists>e'. write_card_block (Suc fuel) block_addr buffer buffer_size e = Some (True, e')
         \<and> sent e' = [0xFF] @ command_frame 24 block_addr 0x01 @ [0xFF] @ [0xFE]
                      @ map (block_image buffer buffer_size) [0..<SD_BLOCK_SIZE]
                      @ [0xFF, 0xFF, 0xFF, 0xFF, 0xFF]"
proof -
  let ?frame = "command_frame 24 block_addr 0x01"
  let ?data = "map (block_image buffer buffer_size) [0..<SD_BLOCK_SIZE]"
  let ?e1 = "snd (SPI_transfer 0xFF e)"
  note t1 = follows_transfer [where b = "0xFF", OF assms(1)]
  have s0: "sent e = []" using assms(1) by (simp add: follows_def)
  have w: "wait_card_busy (Suc fuel) e = Some (True, ?e1)"
    using t1(1) assms(2) by (simp add: wait_card_busy_def case_prod_beta)
  let ?e2 = "transfer_all ?frame ?e1"
  have c: "send_card_command (Suc fuel) 24 block_addr 0x01 e = Some ?e2"
    by (simp add: send_card_command_def w)
  have a2: "follows reply 7 ?e2"
    by (rule follows_transfer_all [OF t1(2)]) (simp add: command_frame_def)
  have s2: "sent ?e2 = [0xFF] @ ?frame" using t1(3) s0 by (simp add: sent_transfer_all)
  let ?e3 = "snd (SPI_transfer 0xFF ?e2)"
  note t3 = follows_transfer [where b = "0xFF", OF a2]
  have "read_card_response ?e2 = SPI_transfer 0xFF ?e2"
    by (rule read_card_response_first) (simp add: t3(1) assms(3))
  then have p: "read_card_response ?e2 = (0, ?e3)"
    using t3(1) assms(3) by (simp only: prod_eq_iff fst_conv snd_conv) simp
  have a3: "follows reply 8 ?e3" using t3(2) by simp
  let ?e6 = "transfer_all [0xFF, 0xFF] (transfer_all ?data (transfer_all [0xFE] ?e3))"
  have a6: "follows reply 523 ?e6"
    by (intro follows_transfer_all [OF a3, of "[0xFE]" 9] follows_transfer_all [of reply 9 _ ?data 521]
        follows_transfer_all [of reply 521 _ "[0xFF, 0xFF]" 523])
       (simp_all add: SD_BLOCK_SIZE_def)
  have s6: "sent ?e6 = [0xFF] @ ?frame @ [0xFF] @ [0xFE] @ ?data @ [0xFF, 0xFF]"
    using t3(3) s2 by (simp only: sent_transfer_all) simp
  obtain response e7 where q: "SPI_transfer 0xFF ?e6 = (response, e7)"
    by (cases "SPI_transfer 0xFF ?e6")
  note t7 = follows_transfer [where b = "0xFF", OF a6]
  have r: "response = reply 524" "follows reply 524 e7" "sent e7 = sent ?e6 @ [0xFF]"
    using t7 q by simp_all
  let ?e8 = "snd (SPI_transfer 0xFF e7)"
  note t8 = follows_transfer [where b = "0xFF", OF r(2)]
  have k: "await_card_ready (Suc fuel) e7 = Some ?e8"
    using t8(1) assms(5) by (simp add: case_prod_beta)
  let ?e' = "transfer_all [0xFF] ?e8"
  have ok: "\<not> response AND 0x1F \<noteq> 0x05" using r(1) assms(4) by simp
  have "write_card_block (Suc fuel) block_addr buffer buffer_size e = Some (True, ?e')"
    by (simp only: write_card_block_def c option.case p prod.case Let_def q ok k if_False) simp
  moreover have "sent ?e' = [0xFF] @ ?frame @ [0xFF] @ [0xFE] @ ?data @ [0xFF, 0xFF, 0xFF, 0xFF, 0xFF]"
    using t8(3) r(3) s6 by (simp only: sent_transfer_all) simp
  ultimately show ?thesis by blast
qed

text \<open>
  C3 at the failing inputs. The busy-wait poll is bounded: on every bus whose byte time is
  at most a millisecond it returns within 302 ms (\<open>wait_card_busy_returns\<close>). The block
  transfers are not. On the bus whose data line is stuck low, \<^verbatim>\<open>wait_card_busy\<close>
  gives up after 301 ms as it should, but \<^verbatim>\<open>read_card_block\<close> then takes the stuck
  \<open>0x00\<close> for the card's acceptance and waits for the data token without a timeout: it
  returns for no amount of fuel. On the bus of the card that accepts a block and stays
  busy, \<^verbatim>\<open>write_card_block\<close> returns for no amount of fuel either.
\<close>

theorem block_transfers_can_block_forever:
  "wait_card_busy (9407 + extra) stuck_low = Some (False, timed_out)
   \<and> fst (read_card_response (transfer_all (command_frame 17 block_addr 0x01) timed_out)) = 0x00
   \<and> read_card_block fuel block_addr buffer_size stuck_low = None
   \<and> write_card_block fuel block_addr buffer buffer_size never_ready = None"
proof -
  have a: "wait_card_busy (9407 + extra) stuck_low = Some (False, timed_out)"
    using stuck_low_wait [of "9407 + extra"] by (simp add: timed_out_def)
  have "is_stuck_low (transfer_all (command_frame 17 block_addr 0x01) timed_out)"
    using timed_out_stuck by simp
  then have b: "fst (read_card_response (transfer_all (command_frame 17 block_addr 0x01) timed_out)) = 0x00"
    using read_response_stuck by blast
  have "is_stuck_low stuck_low" by (simp add: stuck_low_def is_stuck_low_def)
  then have c: "read_card_block fuel block_addr buffer_size stuck_low = None"
    by (rule read_never_returns)
  show ?thesis using a b c write_never_returns by blast
qed

text \<open>
  C8 at the failing input. On the bus whose data line is stuck low the wait times out
  and returns \<^verbatim>\<open>false\<close>; \<^verbatim>\<open>send_card_command\<close> has no result to report it with, and
  the six bytes of the frame follow the 9407 polls on the bus all the same. The next
  \<^verbatim>\<open>read_card_response\<close> then reads the stuck \<open>0x00\<close>, which callers take for
  acceptance.
\<close>

theorem send_card_command_sends_after_timeout:
  "wait_card_busy (9407 + extra) stuck_low = Some (False, timed_out)
   \<and> send_card_command (9407 + extra) cmd arg crc7 stuck_low
       = Some (transfer_all (command_frame cmd arg crc7) timed_out)
   \<and> sent (transfer_all (command_frame cmd arg crc7) timed_out)
       = replicate 9407 0xFF @ command_frame cmd arg crc7
   \<and> fst (read_card_response (transfer_all (command_frame cmd arg crc7) timed_out)) = 0x00"
proof -
  have a: "wait_card_busy (9407 + extra) stuck_low = Some (False, timed_out)"
    using stuck_low_wait [of "9407 + extra"] by (simp add: timed_out_def)
  then have b: "send_card_command (9407 + extra) cmd arg crc7 stuck_low
       = Some (transfer_all (command_frame cmd arg crc7) timed_out)"
    by (simp add: send_card_command_def)
  have c: "sent (transfer_all (command_frame cmd arg crc7) timed_out)
       = replicate 9407 0xFF @ command_frame cmd arg crc7"
    by (simp add: sent_transfer_all timed_out_def)
  have "is_stuck_low (transfer_all (command_frame cmd arg crc7) timed_out)"
    using timed_out_stuck by simp
  then have d: "fst (read_card_response (transfer_all (command_frame cmd arg crc7) timed_out)) = 0x00"
    using read_response_stuck by blast
  show ?thesis using a b c d by blast
qed

end
